theory Spec2Isabelle
  imports Complex_Main
begin

section \<open>Machine arithmetic used by \<open>system.cpp\<close>\<close>

text \<open>
  \<open>unsigned\<close> is a 32-bit value: it is modelled as an \<open>int\<close> between \<open>0\<close> and
  \<open>2 ^ 32 - 1\<close>, with the reduction \<open>mod 2 ^ 32\<close> written at every operation that can
  leave the range. \<open>int\<close> is a 32-bit two's complement value; \<open>to_int32\<close> is the conversion of an
  out-of-range value to it.
\<close>

definition to_uint32 :: "int \<Rightarrow> int" where
  "to_uint32 v = v mod 2 ^ 32"

definition to_int32 :: "int \<Rightarrow> int" where
  "to_int32 v = (v + 2 ^ 31) mod 2 ^ 32 - 2 ^ 31"

definition in_int32 :: "int \<Rightarrow> bool" where
  "in_int32 v = (- (2 ^ 31) \<le> v \<and> v < 2 ^ 31)"

subsection \<open>Single precision floating point\<close>

text \<open>
  A finite \<open>float\<close> is modelled by the rational number it denotes. \<open>f32\<close> rounds a
  rational to the nearest number with a 24-bit significand, ties to the even significand
  (the IEEE 754 default). The exponent range is not modelled: every value that
  \<open>system.cpp\<close> computes in \<open>float\<close> is zero or has a magnitude between \<open>2 ^ -32\<close> and
  \<open>2 ^ 39\<close>, far inside the normal range of binary32.
\<close>

function bitlen :: "int \<Rightarrow> int" where
  "bitlen n = (if n \<le> 0 then 0 else 1 + bitlen (n div 2))"
  by pat_completeness auto
termination
  by (relation "measure nat") auto

declare bitlen.simps [simp del]

definition ilog2 :: "rat \<Rightarrow> int" where
  "ilog2 x = (if 1 \<le> x then bitlen \<lfloor>x\<rfloor> - 1 else - bitlen (\<lceil>1 / x\<rceil> - 1))"

definition rne :: "rat \<Rightarrow> int" where
  "rne x = (let f = \<lfloor>x\<rfloor>; r = x - of_int f
            in if r < 1 / 2 then f
               else if 1 / 2 < r then f + 1
               else if even f then f else f + 1)"

definition f32_pos :: "rat \<Rightarrow> rat" where
  "f32_pos x = (let u = 2 powi (ilog2 x - 23) in of_int (rne (x / u)) * u)"

definition f32 :: "rat \<Rightarrow> rat" where
  "f32 x = (if x = 0 then 0 else if x < 0 then - f32_pos (- x) else f32_pos x)"

text \<open>
  \<open>(int)ceil(a / (float)b)\<close> for an \<open>unsigned\<close> \<open>a\<close> and an integer \<open>b\<close>: both operands
  are converted to \<open>float\<close>, the quotient is rounded to \<open>float\<close>, \<open>ceil\<close> is exact, and
  the conversion to \<open>int\<close> is defined only when the value fits. Division by zero yields
  an infinity or a NaN, whose conversion is undefined: both are \<open>None\<close>.
\<close>

definition ceil_fdiv :: "int \<Rightarrow> int \<Rightarrow> int option" where
  "ceil_fdiv a b =
     (if b = 0 then None
      else let c = \<lceil>f32 (f32 (of_int a) / f32 (of_int b))\<rceil>
           in if in_int32 c then Some c else None)"

section \<open>Render tasks and the tile spiral (\<open>System::_pushRenderTask\<close>)\<close>

record render_task =
  taskId :: int
  ori_x :: int
  ori_y :: int
  size_x :: int
  size_y :: int

text \<open>
  The two counting loops of lines 179 to 182. The counters are \<open>unsigned\<close>, so
  \<open>i += tilesize\<close> and \<open>++m_totalTask\<close> wrap around; a loop that never leaves its
  condition has no result.
\<close>

partial_function (option) count_row :: "int \<Rightarrow> int \<Rightarrow> int \<Rightarrow> int \<Rightarrow> int option" where
  "count_row W T j cnt =
     (if j < W then count_row W T ((j + T) mod 2 ^ 32) ((cnt + 1) mod 2 ^ 32)
      else Some cnt)"

declare count_row.simps [code]

partial_function (option) count_tasks :: "int \<Rightarrow> int \<Rightarrow> int \<Rightarrow> int \<Rightarrow> int \<Rightarrow> int option" where
  "count_tasks W H T i cnt =
     (if i < H
      then Option.bind (count_row W T 0 cnt)
             (\<lambda>cnt'. count_tasks W H T ((i + T) mod 2 ^ 32) cnt')
      else Some cnt)"

declare count_tasks.simps [code]

record spiral =
  cur_pos :: "int \<times> int"
  cur_dir :: int
  cur_len :: int
  cur_dir_len :: int

definition dir :: "(int \<times> int) list" where
  "dir = [(0, -1), (-1, 0), (0, 1), (1, 0)]"

definition inside :: "int \<times> int \<Rightarrow> int \<times> int \<Rightarrow> bool" where
  "inside tile_num p =
     (fst p \<ge> 0 \<and> fst p < fst tile_num \<and> snd p \<ge> 0 \<and> snd p < snd tile_num)"

definition outside_both :: "int \<times> int \<Rightarrow> int \<times> int \<Rightarrow> bool" where
  "outside_both tile_num p =
     ((fst p < 0 \<or> fst p \<ge> fst tile_num) \<and> (snd p < 0 \<or> snd p \<ge> snd tile_num))"

text \<open>
  Lines 204 to 208. \<open>cur_pos.x * tilesize\<close> and \<open>GetWidth() - rt.ori.x\<close> are computed in
  \<open>unsigned\<close>.
\<close>

definition make_task :: "int \<Rightarrow> int \<Rightarrow> int \<Rightarrow> int \<Rightarrow> int \<times> int \<Rightarrow> render_task" where
  "make_task W H T tid p =
     (let ox = to_uint32 (fst p * T);
          oy = to_uint32 (snd p * T);
          rx = to_uint32 (W - ox);
          ry = to_uint32 (H - oy)
      in \<lparr>taskId = tid, ori_x = ox, ori_y = oy,
          size_x = (if T < rx then T else rx),
          size_y = (if T < ry then T else ry)\<rparr>)"

text \<open>Lines 202 to 215: the task is pushed only for a cell inside the grid.\<close>

definition push_tile ::
  "int \<Rightarrow> int \<Rightarrow> int \<Rightarrow> int \<times> int \<Rightarrow> spiral \<Rightarrow> int \<times> render_task list \<Rightarrow> int \<times> render_task list"
where
  "push_tile W H T tile_num st tq =
     (if inside tile_num (cur_pos st)
      then ((fst tq + 1) mod 2 ^ 32, snd tq @ [make_task W H T (fst tq) (cur_pos st)])
      else tq)"

text \<open>Lines 218 to 227: turn when the run is complete, then move one cell.\<close>

definition turn :: "spiral \<Rightarrow> spiral" where
  "turn st =
     (if cur_len st \<ge> cur_dir_len st
      then let d = (cur_dir st + 1) mod 4
           in st\<lparr>cur_dir := d, cur_len := 0, cur_dir_len := cur_dir_len st + (1 - d mod 2)\<rparr>
      else st)"

definition advance :: "spiral \<Rightarrow> spiral" where
  "advance st =
     (let st1 = turn st; d = dir ! nat (cur_dir st1)
      in st1\<lparr>cur_pos := (fst (cur_pos st1) + fst d, snd (cur_pos st1) + snd d),
             cur_len := cur_len st1 + 1\<rparr>)"

partial_function (option) spiral_loop ::
  "int \<Rightarrow> int \<Rightarrow> int \<Rightarrow> int \<times> int \<Rightarrow> spiral \<Rightarrow> int \<times> render_task list
     \<Rightarrow> (int \<times> render_task list) option"
where
  "spiral_loop W H T tile_num st tq =
     (let tq' = push_tile W H T tile_num st tq;
          st' = advance st
      in if outside_both tile_num (cur_pos st') then Some tq'
         else spiral_loop W H T tile_num st' tq')"

declare spiral_loop.simps [code]

definition spiral_start :: "int \<times> int \<Rightarrow> spiral" where
  "spiral_start tile_num =
     \<lparr>cur_pos = (fst tile_num div 2, snd tile_num div 2),
      cur_dir = 0, cur_len = 0, cur_dir_len = 1\<rparr>"

datatype error =
    Null_root | Null_attribute | Null_m_imagesensor | Null_m_camera | Null_m_pSampler
  | Null_integrator | FloatToInt | IntOverflow

text \<open>
  The arithmetic of \<open>_pushRenderTask\<close> for a sensor of \<open>W\<close> by \<open>H\<close> pixels and the tile
  size \<open>g_iTileSize\<close>: the total counted by the two loops, and the tasks pushed by the
  spiral in the order of their pushes. \<open>None\<close> is a loop that does not end.
\<close>

definition tile_tasks :: "int \<Rightarrow> int \<Rightarrow> int \<Rightarrow> (error + int \<times> render_task list) option" where
  "tile_tasks W H g_iTileSize =
     (let tilesize = to_uint32 g_iTileSize
      in case count_tasks W H tilesize 0 0 of
           None \<Rightarrow> None
         | Some cnt \<Rightarrow>
             (case ceil_fdiv W tilesize of
                None \<Rightarrow> Some (Inl FloatToInt)
              | Some nx \<Rightarrow>
                  (case ceil_fdiv H tilesize of
                     None \<Rightarrow> Some (Inl FloatToInt)
                   | Some ny \<Rightarrow>
                       (case spiral_loop W H tilesize (nx, ny) (spiral_start (nx, ny)) (0, []) of
                          None \<Rightarrow> None
                        | Some tq \<Rightarrow> Some (Inr (cnt, snd tq))))))"

section \<open>The system state\<close>

record image_sensor =
  sensor_blender :: bool
  sensor_width :: int
  sensor_height :: int
  sensor_filename :: "string option"

record camera =
  camera_type :: string
  camera_property :: "(string \<times> string) list"
  camera_has_sensor :: bool
  camera_preprocessed :: bool

text \<open>
  What the program does to the outside, in program order: the log, the timer, the scene,
  the task queue, the integrator, the memory manager, the worker threads and the
  console.
\<close>

datatype event =
    Log_Warning string
  | Log_Info string
  | Timer_Start
  | Timer_Stop
  | Load_Scene string
  | Scene_PreProcess
  | Round_Size string int
  | Push_Task render_task
  | Sensor_PreProcess
  | Integrator_PreProcess
  | Integrator_SetupCamera
  | PreMalloc int
  | Thread_Create int
  | Thread_Begin int
  | Thread_Join int
  | Sensor_PostProcess
  | Cout_Progress int
  | Cout_Endl

text \<open>
  The members of \<open>System\<close>, and the process-wide objects it works on: the
  \<open>RenderTaskQueue\<close> singleton, the shared memory region (bytes as numbers from 0 to
  255) and the trace of events. \<open>m_pProgress\<close> is a pointer into the region: it is
  modelled by its byte offset, \<open>None\<close> for the null pointer.
\<close>

record system =
  m_camera :: "camera option"
  m_imagesensor :: "image_sensor option"
  m_pSampler :: "string option"
  m_iSamplePerPixel :: int
  m_thread_num :: int
  m_integratorType :: string
  m_integratorProperty :: "(string \<times> string) list"
  m_totalTask :: int
  m_taskDone :: "bool list"
  m_pProgress :: "int option"
  m_uRenderingTime :: int
  m_uPreProcessingTime :: int
  task_queue :: "render_task list"
  shared_bytes :: "int list option"
  trace :: "event list"

text \<open>
  The globals \<open>g_bBlenderMode\<close> and \<open>g_iTileSize\<close>, and the collaborators whose code is
  outside \<open>system.cpp\<close>: the factory behind \<open>CREATE_TYPE\<close> (which names it can
  create), \<open>Sampler::RoundSize\<close>, the timer, and the shared memory manager (whether it
  can allocate, and the bytes a fresh region holds).
\<close>

record env =
  g_bBlenderMode :: bool
  g_iTileSize :: int
  can_create_camera :: "string \<Rightarrow> bool"
  can_create_sampler :: "string \<Rightarrow> bool"
  can_create_integrator :: "string \<Rightarrow> bool"
  RoundSize :: "string \<Rightarrow> int \<Rightarrow> int"
  timer_elapsed :: int
  shm_available :: bool
  shm_fresh :: "nat \<Rightarrow> int"

datatype 'a outcome = Done 'a system | Crashed error system

definition emit :: "event \<Rightarrow> system \<Rightarrow> system" where
  "emit e s = s\<lparr>trace := trace s @ [e]\<rparr>"

text \<open>\<open>System::_preInit\<close>, lines 52 to 61; the other members keep what they hold.\<close>

definition preInit :: "system \<Rightarrow> system" where
  "preInit s = s\<lparr>m_camera := None, m_uRenderingTime := 0, m_uPreProcessingTime := 0,
                 m_thread_num := 1, m_pProgress := None, m_imagesensor := None\<rparr>"

definition new_system :: system where
  "new_system = preInit
     \<lparr>m_camera = None, m_imagesensor = None, m_pSampler = None, m_iSamplePerPixel = 0,
      m_thread_num = 0, m_integratorType = [], m_integratorProperty = [],
      m_totalTask = 0, m_taskDone = [], m_pProgress = None, m_uRenderingTime = 0,
      m_uPreProcessingTime = 0, task_queue = [], shared_bytes = None, trace = []\<rparr>"

section \<open>\<open>System::PreProcess\<close>, lines 89 to 113\<close>

definition PreProcess :: "env \<Rightarrow> system \<Rightarrow> system" where
  "PreProcess env s0 =
     (let s = emit Timer_Start s0
      in if m_imagesensor s = None
         then emit (Log_Warning ''There is no render target in the system, can't render anything.'') s
         else if m_camera s = None
         then emit (Log_Warning ''There is no camera attached in the system , can't render anything.'') s
         else emit (Log_Info ''Time spent on preprocessing'')
                ((emit Timer_Stop (emit Scene_PreProcess s))
                   \<lparr>m_uPreProcessingTime := timer_elapsed env\<rparr>))"

section \<open>\<open>System::_outputProgress\<close>, lines 122 to 138\<close>

text \<open>
  \<open>(unsigned)((float)taskDone / (float)m_totalTask * 100)\<close>: two conversions, a division
  and a multiplication, each rounded to \<open>float\<close>, then the truncation. With no task the
  quotient is a NaN, whose conversion is undefined.
\<close>

definition progress_percent :: "int \<Rightarrow> int \<Rightarrow> int option" where
  "progress_percent taskDone totalTask =
     (if totalTask = 0 then None
      else Some \<lfloor>f32 (f32 (f32 (of_int taskDone) / f32 (of_int totalTask)) * f32 100)\<rfloor>)"

definition count_done :: "system \<Rightarrow> int" where
  "count_done s = int (length (filter (\<lambda>b. b) (take (nat (m_totalTask s)) (m_taskDone s))))"

definition store_byte :: "int list option \<Rightarrow> int \<Rightarrow> int \<Rightarrow> int list option" where
  "store_byte mem off v = map_option (\<lambda>bs. bs[nat off := v mod 256]) mem"

definition outputProgress :: "env \<Rightarrow> system \<Rightarrow> unit outcome" where
  "outputProgress env s =
     (case progress_percent (count_done s) (m_totalTask s) of
        None \<Rightarrow> Crashed FloatToInt s
      | Some progress \<Rightarrow>
          (let s1 = (if \<not> g_bBlenderMode env then emit (Cout_Progress progress) s
                     else case m_pProgress s of
                            Some off \<Rightarrow> s\<lparr>shared_bytes := store_byte (shared_bytes s) off progress\<rparr>
                          | None \<Rightarrow> s)
           in Done () (emit Cout_Endl s1)))"


section \<open>\<open>System::_pushRenderTask\<close>, lines 172 to 232\<close>

text \<open>
  The sensor is dereferenced first; the queue is the \<open>RenderTaskQueue\<close> singleton, and
  every \<open>PushTask\<close> is an event. \<open>None\<close> is a loop that does not end.
\<close>

definition pushRenderTask :: "env \<Rightarrow> system \<Rightarrow> unit outcome option" where
  "pushRenderTask env s =
     (case m_imagesensor s of
        None \<Rightarrow> Some (Crashed Null_m_imagesensor s)
      | Some img \<Rightarrow>
          (case tile_tasks (sensor_width img) (sensor_height img) (g_iTileSize env) of
             None \<Rightarrow> None
           | Some (Inl e) \<Rightarrow> Some (Crashed e s)
           | Some (Inr (cnt, tasks)) \<Rightarrow>
               Some (Done ()
                 (s\<lparr>m_totalTask := cnt,
                    m_taskDone := replicate (nat cnt) False,
                    task_queue := task_queue s @ tasks,
                    trace := trace s @ map Push_Task tasks\<rparr>))))"

section \<open>\<open>System::_executeRenderingTasks\<close>, lines 235 to 261\<close>

text \<open>
  Modelled from the spec: the worker (\<open>PlatformThreadUnit\<close>, \<open>RenderTask::Execute\<close>) is
  not part of the sources. The spec's worker repeatedly pops a task, renders it and marks
  the task's completion flag, until the queue is empty; it never pushes. Once the
  workers are joined the queue is therefore empty and the flag of every task that was
  queued is set, when there is at least one worker.
\<close>

definition workers_joined :: "system \<Rightarrow> system" where
  "workers_joined s =
     (if 0 < m_thread_num s
      then s\<lparr>m_taskDone := foldl (\<lambda>d t. d[nat (taskId t) := True]) (m_taskDone s) (task_queue s),
             task_queue := []\<rparr>
      else s)"

definition thread_ids :: "system \<Rightarrow> int list" where
  "thread_ids s = [0 .. m_thread_num s - 1]"

definition emit_all :: "event list \<Rightarrow> system \<Rightarrow> system" where
  "emit_all es s = s\<lparr>trace := trace s @ es\<rparr>"

text \<open>Lines 243 to 255: the arenas, then the threads are created, started and joined.\<close>

definition run_threads :: "system \<Rightarrow> system" where
  "run_threads s2 =
     (let s3 = emit_all (map PreMalloc (thread_ids s2)) s2;
          s4 = emit_all (map Thread_Create (thread_ids s3)) s3;
          s5 = emit_all (map Thread_Begin (thread_ids s4)) s4
      in workers_joined (emit_all (map Thread_Join (thread_ids s5)) s5))"

definition executeRenderingTasks :: "env \<Rightarrow> system \<Rightarrow> unit outcome" where
  "executeRenderingTasks env s0 =
     (if m_imagesensor s0 = None then Crashed Null_m_imagesensor s0
      else let s1 = emit Sensor_PreProcess s0
           in if \<not> can_create_integrator env (m_integratorType s1)
              then Crashed Null_integrator (emit (Log_Warning ''No integrator with name of'') s1)
              else let s2 = emit Integrator_SetupCamera (emit Integrator_PreProcess s1)
                   in case outputProgress env (run_threads s2) of
                        Crashed e s7 \<Rightarrow> Crashed e s7
                      | Done u s7 \<Rightarrow> Done () (emit Sensor_PostProcess s7))"

section \<open>\<open>System::Render\<close>, lines 64 to 79\<close>

definition Render :: "env \<Rightarrow> system \<Rightarrow> unit outcome option" where
  "Render env s0 =
     (let s1 = PreProcess env s0;
          s2 = emit Timer_Start s1
      in case pushRenderTask env s2 of
           None \<Rightarrow> None
         | Some (Crashed e s3) \<Rightarrow> Some (Crashed e s3)
         | Some (Done u s3) \<Rightarrow>
             (case executeRenderingTasks env s3 of
                Crashed e s4 \<Rightarrow> Some (Crashed e s4)
              | Done u s4 \<Rightarrow>
                  Some (Done () ((emit Timer_Stop s4)\<lparr>m_uRenderingTime := timer_elapsed env\<rparr>))))"


section \<open>\<open>System::Setup\<close>, lines 285 to 426\<close>

subsection \<open>The scene file\<close>

text \<open>
  The document that TinyXML hands to \<open>Setup\<close>: elements with a name, attributes and
  child elements. \<open>FirstChildElement\<close> is the first child of a name, \<open>Attribute\<close> the
  value of an attribute or a null pointer, and the \<open>NextSiblingElement\<close> loops visit the
  children of a name in document order.
\<close>

datatype xml = Element (tag: string) (attributes: "(string \<times> string) list") (children: "xml list")

definition FirstChildElement :: "string \<Rightarrow> xml \<Rightarrow> xml option" where
  "FirstChildElement name e = find (\<lambda>c. tag c = name) (children e)"

definition Attribute :: "string \<Rightarrow> xml \<Rightarrow> string option" where
  "Attribute name e = map_of (attributes e) name"

definition Properties :: "xml \<Rightarrow> xml list" where
  "Properties e = filter (\<lambda>c. tag c = ''Property'') (children e)"

subsection \<open>\<open>atoi\<close>\<close>

text \<open>
  The C library's \<open>atoi\<close>: white space, an optional sign, then decimal digits up to the
  first other character. A value outside \<open>int\<close> is undefined behaviour in C; the model
  reduces it to 32 bits, and no theorem below depends on that choice.
\<close>

definition is_space :: "char \<Rightarrow> bool" where
  "is_space c = (c = CHR '' '' \<or> (9 \<le> (of_char c :: nat) \<and> (of_char c :: nat) \<le> 13))"

definition is_digit :: "char \<Rightarrow> bool" where
  "is_digit c = (48 \<le> (of_char c :: nat) \<and> (of_char c :: nat) \<le> 57)"

fun digits_value :: "int \<Rightarrow> string \<Rightarrow> int" where
  "digits_value acc [] = acc"
| "digits_value acc (c # cs) =
     (if is_digit c then digits_value (acc * 10 + (of_char c - 48)) cs else acc)"

definition atoi :: "string \<Rightarrow> int" where
  "atoi str =
     to_int32 (case dropWhile is_space str of
                 [] \<Rightarrow> 0
               | c # cs \<Rightarrow>
                   if c = CHR ''-'' then - digits_value 0 cs
                   else if c = CHR ''+'' then digits_value 0 cs
                   else digits_value 0 (c # cs))"

subsection \<open>The steps of \<open>Setup\<close>\<close>

text \<open>
  Each step either ends \<open>Setup\<close> (\<open>Inl\<close>: a \<open>return\<close>, or a crash on a null pointer) or
  hands the state to the next step (\<open>Inr\<close>). A null \<open>const char*\<close> that is converted to
  a \<open>std::string\<close> or given to \<open>atoi\<close> is a crash.
\<close>

type_synonym step = "bool outcome + system"

definition and_then :: "step \<Rightarrow> (system \<Rightarrow> step) \<Rightarrow> step" where
  "and_then r f = (case r of Inl out \<Rightarrow> Inl out | Inr s \<Rightarrow> f s)"

text \<open>Lines 287 to 291.\<close>

definition setup_sensor :: "env \<Rightarrow> system \<Rightarrow> step" where
  "setup_sensor env s =
     Inr (s\<lparr>m_imagesensor := Some \<lparr>sensor_blender = g_bBlenderMode env, sensor_width = 0,
                                     sensor_height = 0, sensor_filename = None\<rparr>\<rparr>)"

text \<open>Lines 303 to 313.\<close>

definition setup_scene :: "xml \<Rightarrow> system \<Rightarrow> step" where
  "setup_scene xml_root s =
     (case FirstChildElement ''Scene'' xml_root of
        Some element \<Rightarrow>
          (case Attribute ''value'' element of
             Some str_scene \<Rightarrow> Inr (emit (Load_Scene str_scene) s)
           | None \<Rightarrow> Inl (Done False s))
      | None \<Rightarrow> Inl (Done False s))"

text \<open>Lines 315 to 336.\<close>

fun integrator_properties :: "xml list \<Rightarrow> system \<Rightarrow> step" where
  "integrator_properties [] s = Inr s"
| "integrator_properties (prop # props) s =
     (case (Attribute ''name'' prop, Attribute ''value'' prop) of
        (Some prop_name, Some prop_value) \<Rightarrow>
          integrator_properties props
            (s\<lparr>m_integratorProperty := m_integratorProperty s @ [(prop_name, prop_value)]\<rparr>)
      | _ \<Rightarrow> Inl (Crashed Null_attribute s))"

definition setup_integrator :: "xml \<Rightarrow> system \<Rightarrow> step" where
  "setup_integrator xml_root s =
     (case FirstChildElement ''Integrator'' xml_root of
        Some element \<Rightarrow>
          (case Attribute ''type'' element of
             Some ty \<Rightarrow> integrator_properties (Properties element) (s\<lparr>m_integratorType := ty\<rparr>)
           | None \<Rightarrow> Inl (Crashed Null_attribute s))
      | None \<Rightarrow> Inl (Done False s))"

text \<open>Lines 338 to 346. The sensor holds its size as \<open>unsigned\<close>.\<close>

definition SetSensorSize :: "int \<Rightarrow> int \<Rightarrow> system \<Rightarrow> system" where
  "SetSensorSize w h s =
     s\<lparr>m_imagesensor :=
         map_option (\<lambda>img. img\<lparr>sensor_width := to_uint32 w, sensor_height := to_uint32 h\<rparr>)
           (m_imagesensor s)\<rparr>"

definition setup_size :: "xml \<Rightarrow> system \<Rightarrow> step" where
  "setup_size xml_root s =
     (case FirstChildElement ''RenderTargetSize'' xml_root of
        Some element \<Rightarrow>
          (case (Attribute ''w'' element, Attribute ''h'' element) of
             (Some str_width, Some str_height) \<Rightarrow>
               Inr (SetSensorSize (atoi str_width) (atoi str_height) s)
           | _ \<Rightarrow> Inl (Crashed Null_attribute s))
      | None \<Rightarrow> Inr (SetSensorSize 1920 1080 s))"

text \<open>Lines 348 to 366. \<open>sampler_round\<close> is lines 355 to 357.\<close>

definition sampler_round :: "string \<Rightarrow> int" where
  "sampler_round str_round =
     (let round0 = to_uint32 (atoi str_round);
          round1 = (if round0 < 1 then 1 else round0);
          round2 = (if round1 > 1024 then 1024 else round1)
      in round2)"

definition call_RoundSize :: "env \<Rightarrow> int \<Rightarrow> system \<Rightarrow> step" where
  "call_RoundSize env n s =
     (case m_pSampler s of
        None \<Rightarrow> Inl (Crashed Null_m_pSampler s)
      | Some ty \<Rightarrow> Inr ((emit (Round_Size ty n) s)\<lparr>m_iSamplePerPixel := RoundSize env ty n\<rparr>))"

definition setup_sampler :: "env \<Rightarrow> xml \<Rightarrow> system \<Rightarrow> step" where
  "setup_sampler env xml_root s =
     (case FirstChildElement ''Sampler'' xml_root of
        Some element \<Rightarrow>
          (case Attribute ''round'' element of
             None \<Rightarrow> Inl (Crashed Null_attribute s)
           | Some str_round \<Rightarrow>
               (case Attribute ''type'' element of
                  None \<Rightarrow> Inl (Crashed Null_attribute s)
                | Some str_type \<Rightarrow>
                    call_RoundSize env (sampler_round str_round)
                      (s\<lparr>m_pSampler :=
                           (if can_create_sampler env str_type then Some str_type else None)\<rparr>)))
      | None \<Rightarrow> call_RoundSize env 16 (s\<lparr>m_pSampler := Some ''stratified''\<rparr>))"

text \<open>Lines 368 to 389.\<close>

fun camera_properties :: "xml list \<Rightarrow> camera \<Rightarrow> camera" where
  "camera_properties [] cam = cam"
| "camera_properties (prop # props) cam =
     (case (Attribute ''name'' prop, Attribute ''value'' prop) of
        (Some prop_name, Some prop_value) \<Rightarrow>
          camera_properties props
            (cam\<lparr>camera_property := camera_property cam @ [(prop_name, prop_value)]\<rparr>)
      | _ \<Rightarrow> camera_properties props cam)"

definition setup_camera :: "env \<Rightarrow> xml \<Rightarrow> system \<Rightarrow> step" where
  "setup_camera env xml_root s =
     (case FirstChildElement ''Camera'' xml_root of
        Some element \<Rightarrow>
          (case Attribute ''type'' element of
             None \<Rightarrow> Inl (Crashed Null_attribute s)
           | Some str_camera \<Rightarrow>
               if \<not> can_create_camera env str_camera
               then Inl (Done False (s\<lparr>m_camera := None\<rparr>))
               else Inr (s\<lparr>m_camera :=
                            Some (camera_properties (Properties element)
                                    \<lparr>camera_type = str_camera, camera_property = [],
                                     camera_has_sensor = False, camera_preprocessed = False\<rparr>)\<rparr>))
      | None \<Rightarrow> Inr s)"

text \<open>Lines 391 to 397.\<close>

definition setup_output :: "xml \<Rightarrow> system \<Rightarrow> step" where
  "setup_output xml_root s =
     (case FirstChildElement ''OutputFile'' xml_root of
        Some element \<Rightarrow>
          (case Attribute ''name'' element of
             Some name \<Rightarrow>
               Inr (s\<lparr>m_imagesensor :=
                        map_option (\<lambda>img. img\<lparr>sensor_filename := Some name\<rparr>) (m_imagesensor s)\<rparr>)
           | None \<Rightarrow> Inl (Crashed Null_attribute s))
      | None \<Rightarrow> Inr s)"

definition setup_threads :: "xml \<Rightarrow> system \<Rightarrow> step" where
  "setup_threads xml_root s =
     (case FirstChildElement ''ThreadNum'' xml_root of
        Some element \<Rightarrow>
          (case Attribute ''name'' element of
             Some name \<Rightarrow> Inr (s\<lparr>m_thread_num := to_uint32 (atoi name)\<rparr>)
           | None \<Rightarrow> Inl (Crashed Null_attribute s))
      | None \<Rightarrow> Inr s)"

text \<open>Lines 399 to 403: \<open>m_camera\<close> is dereferenced without a test.\<close>

definition setup_camera_sensor :: "system \<Rightarrow> step" where
  "setup_camera_sensor s =
     (case m_camera s of
        None \<Rightarrow> Inl (Crashed Null_m_camera s)
      | Some cam \<Rightarrow>
          Inr (s\<lparr>m_camera := Some (cam\<lparr>camera_has_sensor := True, camera_preprocessed := True\<rparr>)\<rparr>))"


text \<open>
  Lines 405 to 411. The products up to \<open>* 4\<close> are computed in \<open>int\<close>, where an overflow
  is undefined; from \<open>sizeof(float)\<close> on, the operands are \<open>size_t\<close> (64 bits; the
  result below is the same with 32), and the sum is converted to the \<open>int size\<close>.
\<close>

definition to_size_t :: "int \<Rightarrow> int" where
  "to_size_t v = v mod 2 ^ 64"

definition shm_size :: "int \<Rightarrow> int \<Rightarrow> int \<Rightarrow> int option" where
  "shm_size x_tile y_tile T =
     (let header_size = x_tile * y_tile;
          a1 = header_size * T;
          a2 = a1 * T;
          a3 = a2 * 4
      in if in_int32 header_size \<and> in_int32 a1 \<and> in_int32 a2 \<and> in_int32 a3
         then Some (to_int32 (to_size_t (to_size_t (to_size_t (to_size_t (to_size_t a3 * 4) * 2)
                                                     + to_size_t header_size) + 2)))
         else None)"

text \<open>
  Modelled from the spec: \<open>SMManager::CreateSharedMemory\<close> is not part of the sources.
  The spec's region is one named region of the size asked for; when the manager cannot
  provide it, the region's byte pointer is null.
\<close>

record shared_memory =
  sm_bytes :: "int list option"
  sm_size :: int

definition CreateSharedMemory :: "env \<Rightarrow> int \<Rightarrow> shared_memory" where
  "CreateSharedMemory env sz =
     (if shm_available env \<and> 0 < sz
      then \<lparr>sm_bytes = Some (map (shm_fresh env) [0 ..< nat sz]), sm_size = sz\<rparr>
      else \<lparr>sm_bytes = None, sm_size = 0\<rparr>)"

definition memset :: "int list \<Rightarrow> int \<Rightarrow> int \<Rightarrow> int list" where
  "memset bytes v n = replicate (nat n) v @ drop (nat n) bytes"

text \<open>Lines 405 to 423.\<close>

definition setup_shared_memory :: "env \<Rightarrow> system \<Rightarrow> step" where
  "setup_shared_memory env s =
     (case m_imagesensor s of
        None \<Rightarrow> Inl (Crashed Null_m_imagesensor s)
      | Some img \<Rightarrow>
          (case ceil_fdiv (sensor_width img) (g_iTileSize env) of
             None \<Rightarrow> Inl (Crashed FloatToInt s)
           | Some x_tile \<Rightarrow>
               (case ceil_fdiv (sensor_height img) (g_iTileSize env) of
                  None \<Rightarrow> Inl (Crashed FloatToInt s)
                | Some y_tile \<Rightarrow>
                    (case shm_size x_tile y_tile (g_iTileSize env) of
                       None \<Rightarrow> Inl (Crashed IntOverflow s)
                     | Some sz \<Rightarrow>
                         (let sm = CreateSharedMemory env sz
                          in case sm_bytes sm of
                               Some bytes \<Rightarrow>
                                 Inr (s\<lparr>shared_bytes := Some (memset bytes 0 (sm_size sm)),
                                        m_pProgress := Some (sm_size sm - 2)\<rparr>)
                             | None \<Rightarrow> Inr (s\<lparr>shared_bytes := None\<rparr>))))))"

text \<open>
  Lines 287 to 403: everything \<open>Setup\<close> does before the shared memory. The document is
  \<open>None\<close> when the file could not be loaded or has no root element: \<open>root\<close> is then a
  null pointer.
\<close>

definition setup_config :: "env \<Rightarrow> xml option \<Rightarrow> system \<Rightarrow> step" where
  "setup_config env doc s0 =
     and_then (setup_sensor env s0) (\<lambda>s.
       case doc of
         None \<Rightarrow> Inl (Crashed Null_root s)
       | Some xml_root \<Rightarrow>
           and_then (setup_scene xml_root s) (\<lambda>s.
           and_then (setup_integrator xml_root s) (\<lambda>s.
           and_then (setup_size xml_root s) (\<lambda>s.
           and_then (setup_sampler env xml_root s) (\<lambda>s.
           and_then (setup_camera env xml_root s) (\<lambda>s.
           and_then (setup_output xml_root s) (\<lambda>s.
           and_then (setup_threads xml_root s) (\<lambda>s.
           setup_camera_sensor s))))))))"

text \<open>\<open>Setup\<close> as a whole; it returns \<open>true\<close> at its end, line 425.\<close>

definition Setup :: "env \<Rightarrow> xml option \<Rightarrow> system \<Rightarrow> bool outcome" where
  "Setup env doc s0 =
     (case and_then (setup_config env doc s0) (setup_shared_memory env) of
        Inl out \<Rightarrow> out
      | Inr s \<Rightarrow> Done True s)"

section \<open>Notions used in the statements\<close>

definition outcome_state :: "'a outcome \<Rightarrow> system" where
  "outcome_state out = (case out of Done _ s \<Rightarrow> s | Crashed _ s \<Rightarrow> s)"

definition step_state :: "step \<Rightarrow> system" where
  "step_state r = (case r of Inl out \<Rightarrow> outcome_state out | Inr s \<Rightarrow> s)"

text \<open>A step keeps a property of the state, on every path out of it.\<close>

definition preserves :: "(system \<Rightarrow> bool) \<Rightarrow> (system \<Rightarrow> step) \<Rightarrow> bool" where
  "preserves I f = (\<forall>s. I s \<longrightarrow> I (step_state (f s)))"

text \<open>The trace \<open>new\<close> is \<open>old\<close> followed by events that all satisfy \<open>P\<close>.\<close>

definition extends_by :: "(event \<Rightarrow> bool) \<Rightarrow> event list \<Rightarrow> event list \<Rightarrow> bool" where
  "extends_by P old new = (\<exists>es. new = old @ es \<and> list_all P es)"

text \<open>
  A \<open>RoundSize\<close> call whose argument is the \<open>round\<close> attribute of the Sampler element
  \<open>el\<close>, parsed by \<open>atoi\<close>, converted to \<open>unsigned\<close> and brought into the range from 1 to
  1024.
\<close>

definition clamped_round :: "xml \<Rightarrow> event \<Rightarrow> bool" where
  "clamped_round el e =
     (case e of
        Round_Size ty n \<Rightarrow>
          (\<exists>str_round. Attribute ''round'' el = Some str_round
             \<and> n = max 1 (min 1024 (to_uint32 (atoi str_round))))
      | _ \<Rightarrow> True)"

text \<open>The pixel \<open>p\<close> lies in the rectangle of the task \<open>t\<close>.\<close>

definition covers :: "render_task \<Rightarrow> int \<times> int \<Rightarrow> bool" where
  "covers t p = (ori_x t \<le> fst p \<and> fst p < ori_x t + size_x t
                 \<and> ori_y t \<le> snd p \<and> snd p < ori_y t + size_y t)"

text \<open>The events of the task queue's producer, and those of the worker threads.\<close>

definition is_push :: "event \<Rightarrow> bool" where
  "is_push e = (case e of Push_Task t \<Rightarrow> True | _ \<Rightarrow> False)"

definition worker_event :: "event \<Rightarrow> bool" where
  "worker_event e =
     (case e of Thread_Create i \<Rightarrow> True | Thread_Begin i \<Rightarrow> True | Thread_Join i \<Rightarrow> True
      | _ \<Rightarrow> False)"





text \<open>What a progress report leaves behind when it has computed the percentage \<open>p\<close>.\<close>

definition reported :: "env \<Rightarrow> system \<Rightarrow> int \<Rightarrow> system" where
  "reported env s p =
     (if g_bBlenderMode env
      then (case m_pProgress s of
              Some off \<Rightarrow> s\<lparr>shared_bytes := map_option (\<lambda>bs. bs[nat off := p]) (shared_bytes s),
                            trace := trace s @ [Cout_Endl]\<rparr>
            | None \<Rightarrow> s\<lparr>trace := trace s @ [Cout_Endl]\<rparr>)
      else s\<lparr>trace := trace s @ [Cout_Progress p, Cout_Endl]\<rparr>)"

definition never_true :: "step \<Rightarrow> bool" where
  "never_true r = (\<forall>s. r \<noteq> Inl (Done True s))"

definition returns_true :: "bool outcome \<Rightarrow> bool" where
  "returns_true out = (case out of Done b s \<Rightarrow> b | Crashed e s \<Rightarrow> False)"

subsection \<open>Concrete inputs\<close>

definition example_env :: "bool \<Rightarrow> bool \<Rightarrow> env" where
  "example_env blender shm =
     \<lparr>g_bBlenderMode = blender, g_iTileSize = 32,
      can_create_camera = (\<lambda>ty. ty = ''perspective''),
      can_create_sampler = (\<lambda>ty. ty = ''stratified'' \<or> ty = ''random''),
      can_create_integrator = (\<lambda>ty. ty = ''pt''),
      RoundSize = (\<lambda>ty n. n), timer_elapsed = 0,
      shm_available = shm, shm_fresh = (\<lambda>i. 255)\<rparr>"

definition example_doc :: "xml list \<Rightarrow> xml" where
  "example_doc extra =
     Element ''Root'' []
       ([Element ''Scene'' [(''value'', ''scene.xml'')] [],
         Element ''Integrator'' [(''type'', ''pt'')]
           [Element ''Property'' [(''name'', ''max_depth''), (''value'', ''8'')] []]] @ extra)"

definition example_sensor :: "int \<Rightarrow> int \<Rightarrow> image_sensor" where
  "example_sensor w h =
     \<lparr>sensor_blender = False, sensor_width = w, sensor_height = h, sensor_filename = None\<rparr>"

definition example_camera :: xml where
  "example_camera = Element ''Camera'' [(''type'', ''perspective'')] []"

definition sampler_doc :: xml where
  "sampler_doc =
     example_doc [Element ''Sampler'' [(''type'', ''random''), (''round'', ''16'')] [],
                  example_camera]"

definition sampler_doc_negative :: xml where
  "sampler_doc_negative =
     example_doc [Element ''Sampler'' [(''type'', ''random''), (''round'', ''-7'')] [],
                  example_camera]"

definition camera_less :: system where
  "camera_less =
     new_system\<lparr>m_imagesensor := Some (example_sensor 64 64), m_integratorType := ''pt''\<rparr>"

definition half_done :: system where
  "half_done = new_system\<lparr>m_totalTask := 2, m_taskDone := [True, False], m_pProgress := Some 0,
     shared_bytes := Some [0, 0]\<rparr>"

definition done_53 :: system where
  "done_53 = new_system\<lparr>m_totalTask := 100, m_taskDone := replicate 53 True @ replicate 47 False,
     m_pProgress := Some 0, shared_bytes := Some [0, 0]\<rparr>"


definition example_setup_state :: "bool \<Rightarrow> system" where
  "example_setup_state blender =
     new_system
       \<lparr>m_camera := Some \<lparr>camera_type = ''perspective'', camera_property = [],
                            camera_has_sensor = True, camera_preprocessed = True\<rparr>,
        m_imagesensor := Some \<lparr>sensor_blender = blender, sensor_width = 1920,
                                sensor_height = 1080, sensor_filename = None\<rparr>,
        m_pSampler := Some ''stratified'', m_iSamplePerPixel := 16,
        m_integratorType := ''pt'', m_integratorProperty := [(''max_depth'', ''8'')],
        trace := [Load_Scene ''scene.xml'', Round_Size ''stratified'' 16]\<rparr>"

definition with_camera :: system where
  "with_camera =
     new_system\<lparr>m_imagesensor := Some (example_sensor 100 50), m_integratorType := ''pt'',
                  m_camera := Some \<lparr>camera_type = ''perspective'', camera_property = [],
                            camera_has_sensor = True, camera_preprocessed = True\<rparr>,
                  m_thread_num := 2\<rparr>"

definition large_doc :: xml where
  "large_doc =
     example_doc [Element ''RenderTargetSize'' [(''w'', ''8192''), (''h'', ''8192'')] [],
                  example_camera]"

definition rendered_without_camera :: system where
  "rendered_without_camera =
     camera_less
       \<lparr>m_totalTask := 4, m_taskDone := [True, True, True, True],
        trace :=
          [Timer_Start,
           Log_Warning ''There is no camera attached in the system , can't render anything.'',
           Timer_Start,
           Push_Task \<lparr>taskId = 0, ori_x = 32, ori_y = 32, size_x = 32, size_y = 32\<rparr>,
           Push_Task \<lparr>taskId = 1, ori_x = 32, ori_y = 0, size_x = 32, size_y = 32\<rparr>,
           Push_Task \<lparr>taskId = 2, ori_x = 0, ori_y = 0, size_x = 32, size_y = 32\<rparr>,
           Push_Task \<lparr>taskId = 3, ori_x = 0, ori_y = 32, size_x = 32, size_y = 32\<rparr>,
           Sensor_PreProcess, Integrator_PreProcess, Integrator_SetupCamera,
           PreMalloc 0, Thread_Create 0, Thread_Begin 0, Thread_Join 0,
           Cout_Progress 100, Cout_Endl, Sensor_PostProcess, Timer_Stop]\<rparr>"

definition wide_env :: env where
  "wide_env = (example_env False False)\<lparr>g_iTileSize := 8388608\<rparr>"

definition wide_image :: system where
  "wide_image = new_system\<lparr>m_imagesensor := Some (example_sensor 16777217 1)\<rparr>"

section \<open>The spiral in the words of the specification\<close>

text \<open>
  The specification walks an outward square spiral: from the start cell, runs in the
  direction order up, left, down, right, of lengths 1, 1, 2, 2, 3, 3 and so on. Up is
  towards smaller \<open>y\<close>. \<open>spec_moves r\<close> are the moves of the first \<open>r\<close> runs, and
  \<open>spec_cell start j\<close> is the cell reached after \<open>j\<close> moves.
\<close>

definition spec_dir :: "nat \<Rightarrow> int \<times> int" where
  "spec_dir i = [(0, - 1), (- 1, 0), (0, 1), (1, 0)] ! (i mod 4)"

definition spec_moves :: "nat \<Rightarrow> (int \<times> int) list" where
  "spec_moves r = concat (map (\<lambda>i. replicate (i div 2 + 1) (spec_dir i)) [0 ..< r])"

definition step_to :: "int \<times> int \<Rightarrow> int \<times> int \<Rightarrow> int \<times> int" where
  "step_to p d = (fst p + fst d, snd p + snd d)"

definition spec_cell :: "int \<times> int \<Rightarrow> nat \<Rightarrow> int \<times> int" where
  "spec_cell start j = foldl step_to start (take j (spec_moves j))"

text \<open>
  What the specification emits for a list of visited cells: one task for each cell inside
  the grid, in the order of the visit, numbered from 0 in an \<open>unsigned\<close>; the cells
  outside the grid are skipped.
\<close>

definition spec_emit ::
  "int \<Rightarrow> int \<Rightarrow> int \<Rightarrow> int \<times> int \<Rightarrow> (int \<times> int) list \<Rightarrow> int \<times> render_task list"
where
  "spec_emit W H T tn cells =
     (let cs = filter (inside tn) cells
      in (int (length cs) mod 2 ^ 32,
          map (\<lambda>(i, p). make_task W H T (int i mod 2 ^ 32) p) (enumerate 0 cs)))"

section \<open>The phases of the loop of lines 202 to 231\<close>

text \<open>
  The states that the loop goes through, named by the run they are in: \<open>Up k l\<close> is the
  state after \<open>l\<close> moves of the run upwards of ring \<open>k\<close>, and so on. \<open>state_of c ph\<close> is
  the state of the loop variables in the phase \<open>ph\<close> of the spiral around the cell \<open>c\<close>,
  and \<open>next_phase\<close> is one passage through lines 218 to 227.
\<close>

datatype phase = Up int int | Left int int | Down int int | Right int int

fun valid :: "phase \<Rightarrow> bool" where
  "valid (Up k l) = (0 \<le> k \<and> 0 \<le> l \<and> l \<le> 2 * k + 1)"
| "valid (Left k l) = (0 \<le> k \<and> 1 \<le> l \<and> l \<le> 2 * k + 1)"
| "valid (Down k l) = (0 \<le> k \<and> 1 \<le> l \<and> l \<le> 2 * k + 2)"
| "valid (Right k l) = (0 \<le> k \<and> 1 \<le> l \<and> l \<le> 2 * k + 2)"

fun offset :: "phase \<Rightarrow> int \<times> int" where
  "offset (Up k l) = (k, k - l)"
| "offset (Left k l) = (k - l, - k - 1)"
| "offset (Down k l) = (- k - 1, - k - 1 + l)"
| "offset (Right k l) = (- k - 1 + l, k + 1)"

fun state_of :: "int \<times> int \<Rightarrow> phase \<Rightarrow> spiral" where
  "state_of c (Up k l) =
     \<lparr>cur_pos = (fst c + k, snd c + (k - l)), cur_dir = 0, cur_len = l, cur_dir_len = 2 * k + 1\<rparr>"
| "state_of c (Left k l) =
     \<lparr>cur_pos = (fst c + (k - l), snd c + (- k - 1)), cur_dir = 1, cur_len = l,
      cur_dir_len = 2 * k + 1\<rparr>"
| "state_of c (Down k l) =
     \<lparr>cur_pos = (fst c + (- k - 1), snd c + (- k - 1 + l)), cur_dir = 2, cur_len = l,
      cur_dir_len = 2 * k + 2\<rparr>"
| "state_of c (Right k l) =
     \<lparr>cur_pos = (fst c + (- k - 1 + l), snd c + (k + 1)), cur_dir = 3, cur_len = l,
      cur_dir_len = 2 * k + 2\<rparr>"

fun next_phase :: "phase \<Rightarrow> phase" where
  "next_phase (Up k l) = (if l < 2 * k + 1 then Up k (l + 1) else Left k 1)"
| "next_phase (Left k l) = (if l < 2 * k + 1 then Left k (l + 1) else Down k 1)"
| "next_phase (Down k l) = (if l < 2 * k + 2 then Down k (l + 1) else Right k 1)"
| "next_phase (Right k l) = (if l < 2 * k + 2 then Right k (l + 1) else Up (k + 1) 1)"

fun ring :: "phase \<Rightarrow> int" where
  "ring (Up k l) = k" | "ring (Left k l) = k" | "ring (Down k l) = k" | "ring (Right k l) = k"

fun side :: "phase \<Rightarrow> nat" where
  "side (Up k l) = 0" | "side (Left k l) = 1" | "side (Down k l) = 2" | "side (Right k l) = 3"

fun steps_left :: "phase \<Rightarrow> int" where
  "steps_left (Up k l) = 2 * k + 1 - l"
| "steps_left (Left k l) = 2 * k + 1 - l"
| "steps_left (Down k l) = 2 * k + 2 - l"
| "steps_left (Right k l) = 2 * k + 2 - l"

definition cell :: "int \<times> int \<Rightarrow> phase \<Rightarrow> int \<times> int" where
  "cell c ph = (fst c + fst (offset ph), snd c + snd (offset ph))"

definition centre :: "int \<times> int \<Rightarrow> int \<times> int" where
  "centre tn = (fst tn div 2, snd tn div 2)"

definition reach :: "int \<times> int \<Rightarrow> int" where
  "reach tn = max 0 (max (fst tn - 1 - fst tn div 2) (snd tn - 1 - snd tn div 2))"

definition spiral_order :: "int \<Rightarrow> (phase \<times> phase) set" where
  "spiral_order m =
     measures [\<lambda>ph. nat (m - ring ph), \<lambda>ph. 3 - side ph, \<lambda>ph. nat (steps_left ph)]"

text \<open>The pushes of lines 202 to 215 for a list of states of the loop.\<close>

definition push_all ::
  "int \<Rightarrow> int \<Rightarrow> int \<Rightarrow> int \<times> int \<Rightarrow> spiral list \<Rightarrow> int \<times> render_task list \<Rightarrow> int \<times> render_task list"
where
  "push_all W H T tn sts tq = foldl (\<lambda>tq st. push_tile W H T tn st tq) tq sts"

text \<open>The run of the specification that a phase is in, and its moves made so far.\<close>

fun run :: "phase \<Rightarrow> nat" where
  "run (Up k l) = nat (4 * k)"
| "run (Left k l) = nat (4 * k + 1)"
| "run (Down k l) = nat (4 * k + 2)"
| "run (Right k l) = nat (4 * k + 3)"

fun done_in_run :: "phase \<Rightarrow> nat" where
  "done_in_run (Up k l) = nat l"
| "done_in_run (Left k l) = nat l"
| "done_in_run (Down k l) = nat l"
| "done_in_run (Right k l) = nat l"

definition idx :: "phase \<Rightarrow> nat" where
  "idx ph = length (spec_moves (run ph)) + done_in_run ph"



section \<open>Facts about the floating point model\<close>

lemma bitlen_nonneg: "0 \<le> bitlen n"
  by (induction n rule: bitlen.induct) (subst bitlen.simps, simp)

lemma bitlen_pos: "0 < n \<Longrightarrow> 1 \<le> bitlen n"
  using bitlen_nonneg [of "n div 2"] by (subst bitlen.simps) simp

lemma bitlen_bounds:
  "0 < n \<Longrightarrow> (2::int) ^ nat (bitlen n - 1) \<le> n \<and> n < 2 ^ nat (bitlen n)"
proof (induction n rule: bitlen.induct)
  case (1 n)
  show ?case
  proof (cases "n = 1")
    case True
    have "bitlen 1 = 1" by (simp add: bitlen.simps)
    with True show ?thesis by simp
  next
    case False
    with "1.prems" have h: "0 < n div 2" by simp
    with "1.prems" "1.IH" have IH: "(2::int) ^ nat (bitlen (n div 2) - 1) \<le> n div 2"
      "n div 2 < 2 ^ nat (bitlen (n div 2))" by auto
    have b: "bitlen n = 1 + bitlen (n div 2)" using "1.prems" by (subst bitlen.simps) simp
    have p: "1 \<le> bitlen (n div 2)" using h by (rule bitlen_pos)
    have e1: "nat (bitlen n - 1) = Suc (nat (bitlen (n div 2) - 1))" using b p by simp
    have e2: "nat (bitlen n) = Suc (nat (bitlen (n div 2)))" using b p by simp
    have "2 * (n div 2) \<le> n" "n \<le> 2 * (n div 2) + 1" by presburger+
    with IH show ?thesis unfolding e1 e2 by simp
  qed
qed

lemma powi_nat: "0 \<le> k \<Longrightarrow> (2::rat) powi k = 2 ^ nat k"
  by (simp add: power_int_def)

lemma powi_pos: "0 < (2::rat) powi k"
  by simp

lemma powi_minus: "(2::rat) powi (- k) = 1 / 2 powi k"
  by (simp add: power_int_minus divide_inverse)

lemma powi_neg_le: "1 \<le> 2 powi k * x \<Longrightarrow> 2 powi (- k) \<le> (x::rat)"
  unfolding powi_minus using powi_pos [of k] by (simp add: field_simps)

lemma powi_neg_less: "2 powi k * x < 1 \<Longrightarrow> (x::rat) < 2 powi (- k)"
  unfolding powi_minus using powi_pos [of k] by (simp add: field_simps)

lemma ilog2_bounds:
  assumes "0 < x"
  shows "2 powi (ilog2 x) \<le> x \<and> x < 2 powi (ilog2 x + 1)"
proof (cases "1 \<le> x")
  case True
  let ?n = "\<lfloor>x\<rfloor>"
  have n: "0 < ?n" using True by simp
  have e: "ilog2 x = bitlen ?n - 1" using True by (simp add: ilog2_def)
  from bitlen_bounds [OF n] have lo: "(2::int) ^ nat (bitlen ?n - 1) \<le> ?n"
    and hi: "?n < 2 ^ nat (bitlen ?n)" by auto
  have p: "1 \<le> bitlen ?n" using n by (rule bitlen_pos)
  have "(2::rat) powi (bitlen ?n - 1) = of_int (2 ^ nat (bitlen ?n - 1))"
    using p by (simp add: powi_nat)
  also have "\<dots> \<le> of_int ?n" using lo by (simp only: of_int_le_iff)
  also have "\<dots> \<le> x" by simp
  finally have 1: "2 powi (ilog2 x) \<le> x" using e by simp
  have "?n + 1 \<le> 2 ^ nat (bitlen ?n)" using hi by simp
  then have "(of_int (?n + 1) :: rat) \<le> of_int (2 ^ nat (bitlen ?n))"
    by (simp only: of_int_le_iff)
  moreover have "x < of_int (?n + 1)" by linarith
  ultimately have "x < of_int (2 ^ nat (bitlen ?n))" by linarith
  also have "\<dots> = 2 powi (bitlen ?n)" using p by (simp add: powi_nat)
  finally have 2: "x < 2 powi (ilog2 x + 1)" using e by simp
  from 1 2 show ?thesis ..
next
  case False
  let ?c = "\<lceil>1 / x\<rceil>"
  from False assms have inv: "1 < 1 / x" by simp
  then have c: "2 \<le> ?c" by linarith
  let ?b = "bitlen (?c - 1)"
  have e: "ilog2 x = - ?b" using False by (simp add: ilog2_def)
  have c1: "0 < ?c - 1" using c by simp
  from bitlen_bounds [OF c1] have lo: "(2::int) ^ nat (?b - 1) \<le> ?c - 1"
    and hi: "?c - 1 < 2 ^ nat ?b" by auto
  have p: "1 \<le> ?b" using c1 by (rule bitlen_pos)
  have "1 / x \<le> of_int ?c" by simp
  also have "of_int ?c \<le> (of_int (2 ^ nat ?b) :: rat)"
    using hi by (simp only: of_int_le_iff)
  also have "\<dots> = 2 powi ?b" using p by (simp add: powi_nat)
  finally have "1 / x \<le> 2 powi ?b" .
  then have "1 \<le> 2 powi ?b * x" using assms by (simp add: field_simps)
  then have "2 powi (- ?b) \<le> x" by (rule powi_neg_le)
  then have 1: "2 powi (ilog2 x) \<le> x" using e by simp
  have "(2::rat) powi (?b - 1) = of_int (2 ^ nat (?b - 1))" using p by (simp add: powi_nat)
  also have "\<dots> \<le> of_int (?c - 1)" using lo by (simp only: of_int_le_iff)
  also have "\<dots> < 1 / x" by linarith
  finally have "2 powi (?b - 1) < 1 / x" .
  then have "2 powi (?b - 1) * x < 1" using assms by (simp add: field_simps)
  then have "x < 2 powi (- (?b - 1))" by (rule powi_neg_less)
  then have 2: "x < 2 powi (ilog2 x + 1)" using e by (simp add: algebra_simps)
  from 1 2 show ?thesis ..
qed

lemma rne_of_int [simp]: "rne (of_int k) = k"
  by (simp add: rne_def)

lemma rne_floor: "\<lfloor>x\<rfloor> \<le> rne x \<and> rne x \<le> \<lfloor>x\<rfloor> + 1"
  by (simp add: rne_def Let_def)

lemma rne_le: "x \<le> of_int k \<Longrightarrow> rne x \<le> k"
proof (cases "x = of_int k")
  case True
  then show ?thesis by simp
next
  case False
  assume "x \<le> of_int k"
  with False have "x < of_int k" by simp
  then have "\<lfloor>x\<rfloor> < k" by (simp add: floor_less_iff)
  with rne_floor [of x] show ?thesis by linarith
qed

lemma rne_ge: "of_int k \<le> x \<Longrightarrow> k \<le> rne x"
proof -
  assume "of_int k \<le> x"
  then have "k \<le> \<lfloor>x\<rfloor>" by (simp add: le_floor_iff)
  with rne_floor [of x] show ?thesis by linarith
qed

lemma rne_close: "\<bar>of_int (rne x) - x\<bar> \<le> 1 / 2"
proof -
  have f: "of_int \<lfloor>x\<rfloor> \<le> x" "x < of_int \<lfloor>x\<rfloor> + 1" by linarith+
  show ?thesis
  proof (cases "x - of_int \<lfloor>x\<rfloor> < 1 / 2")
    case True
    then have "rne x = \<lfloor>x\<rfloor>" by (simp add: rne_def Let_def)
    with True f show ?thesis by simp
  next
    case False
    then have "rne x = \<lfloor>x\<rfloor> \<and> x - of_int \<lfloor>x\<rfloor> = 1 / 2 \<or> rne x = \<lfloor>x\<rfloor> + 1"
      by (auto simp: rne_def Let_def)
    with False f show ?thesis by auto
  qed
qed


lemma powi_mono: "a \<le> b \<Longrightarrow> (2::rat) powi a \<le> 2 powi b"
  by (rule power_int_increasing) simp_all

lemma powi_less_imp: "(2::rat) powi a \<le> x \<Longrightarrow> x < 2 powi b \<Longrightarrow> a < b"
proof (rule ccontr)
  assume h: "2 powi a \<le> x" "x < 2 powi b" and "\<not> a < b"
  then have "b \<le> a" by simp
  from powi_mono [OF this] h show False by linarith
qed

lemma powi_add1: "(2::rat) powi (k + 1) = 2 * 2 powi k"
  by (simp add: power_int_add)

lemma powi_diff: "(2::rat) powi (a - b) = 2 powi a / 2 powi b"
  by (simp add: power_int_diff)

lemma ilog2_unique:
  assumes "2 powi e \<le> x" and "x < 2 powi (e + 1)"
  shows "ilog2 x = e"
proof -
  have pos: "0 < x" using assms(1) powi_pos [of e] by linarith
  from ilog2_bounds [OF pos] have b: "2 powi (ilog2 x) \<le> x" "x < 2 powi (ilog2 x + 1)" by auto
  from powi_less_imp [OF assms(1) b(2)] powi_less_imp [OF b(1) assms(2)]
  show ?thesis by simp
qed

text \<open>The scaled significand lies between \<open>2 ^ 23\<close> and \<open>2 ^ 24\<close>.\<close>

lemma significand_bounds:
  assumes "0 < x"
  shows "2 ^ 23 \<le> x / 2 powi (ilog2 x - 23) \<and> x / 2 powi (ilog2 x - 23) < 2 ^ 24"
proof -
  let ?e = "ilog2 x"
  from ilog2_bounds [OF assms] have b: "2 powi ?e \<le> x" "x < 2 powi (?e + 1)" by auto
  have u: "(2::rat) powi (?e - 23) = 2 powi ?e / 2 ^ 23"
    by (simp add: powi_diff)
  have p: "0 < (2::rat) powi ?e" by simp
  have "x / 2 powi (?e - 23) = x * 2 ^ 23 / 2 powi ?e" unfolding u by simp
  moreover have "2 ^ 23 \<le> x * 2 ^ 23 / 2 powi ?e"
    using b(1) p by (simp add: field_simps)
  moreover have "x * 2 ^ 23 / 2 powi ?e < 2 ^ 24"
    using b(2) p unfolding powi_add1 by (simp add: field_simps)
  ultimately show ?thesis by simp
qed

lemma f32_pos_eq: "f32_pos x = of_int (rne (x / 2 powi (ilog2 x - 23))) * 2 powi (ilog2 x - 23)"
  by (simp add: f32_pos_def Let_def)

lemma f32_pos_positive:
  assumes "0 < x"
  shows "0 < f32_pos x"
proof -
  from significand_bounds [OF assms] have "of_int (2 ^ 23) \<le> x / 2 powi (ilog2 x - 23)" by simp
  from rne_ge [OF this] have "0 < rne (x / 2 powi (ilog2 x - 23))" by simp
  then show ?thesis unfolding f32_pos_eq by simp
qed

lemma f32_pos_exact:
  assumes "0 < x" and "x / 2 powi (ilog2 x - 23) = of_int k"
  shows "f32_pos x = x"
proof -
  have "f32_pos x = of_int k * 2 powi (ilog2 x - 23)"
    unfolding f32_pos_eq assms(2) by simp
  also have "\<dots> = x / 2 powi (ilog2 x - 23) * 2 powi (ilog2 x - 23)"
    by (simp only: assms(2))
  also have "\<dots> = x" by simp
  finally show ?thesis .
qed

lemma powi_of_int: "0 \<le> k \<Longrightarrow> (2::rat) powi k = of_int (2 ^ nat k)"
  by (simp add: powi_nat)

text \<open>An integer up to \<open>2 ^ 24\<close> is a \<open>float\<close>.\<close>

lemma f32_pos_int:
  assumes "0 < n" and "n \<le> 2 ^ 24"
  shows "f32_pos (of_int n) = of_int n"
proof (cases "n = 2 ^ 24")
  case True
  have e: "ilog2 (16777216 :: rat) = 24"
    by (rule ilog2_unique) simp_all
  have "(16777216 :: rat) / 2 powi (ilog2 16777216 - 23) = of_int (2 ^ 23)"
    by (simp add: e)
  then have "f32_pos 16777216 = 16777216"
    by (rule f32_pos_exact [rotated]) simp
  with True show ?thesis by simp
next
  case False
  let ?x = "of_int n :: rat"
  let ?e = "ilog2 ?x"
  have pos: "0 < ?x" using assms by simp
  from ilog2_bounds [OF pos] have b: "2 powi ?e \<le> ?x" by simp
  have "?x < 2 powi 24" using assms False by simp
  from powi_less_imp [OF b this] have e: "?e \<le> 23" by simp
  have "?x / 2 powi (?e - 23) = ?x * 2 powi (23 - ?e)"
    using powi_minus [of "?e - 23"] by simp
  also have "\<dots> = of_int (n * 2 ^ nat (23 - ?e))"
    using e by (simp add: powi_of_int)
  finally show ?thesis by (rule f32_pos_exact [OF pos])
qed

lemma f32_of_pos: "0 < x \<Longrightarrow> f32 x = f32_pos x"
  by (simp add: f32_def)

lemma f32_int: "0 \<le> n \<Longrightarrow> n \<le> 2 ^ 24 \<Longrightarrow> f32 (of_int n) = of_int n"
  by (cases "n = 0") (simp_all add: f32_def f32_pos_int)

lemma of_int_le_2p24: "W \<le> 2 ^ 24 \<Longrightarrow> (of_int W :: rat) \<le> 2 ^ 24"
proof -
  assume "W \<le> 2 ^ 24"
  then have "(of_int W :: rat) \<le> of_int (2 ^ 24)" by (simp only: of_int_le_iff)
  then show ?thesis by simp
qed

text \<open>
  The quotient of two integers up to \<open>2 ^ 24\<close>, rounded to \<open>float\<close>, has the ceiling of
  the exact quotient.
\<close>

lemma ceiling_f32_quotient:
  assumes W: "0 < W" "W \<le> 2 ^ 24" and T: "0 < T" "T \<le> 2 ^ 24"
  shows "\<lceil>f32 (of_int W / of_int T)\<rceil> = \<lceil>(of_int W / of_int T :: rat)\<rceil>"
proof -
  define x :: rat where "x = of_int W / of_int T"
  have pos: "0 < x" using W T by (simp add: x_def)
  have Tr: "(1::rat) \<le> of_int T" "(0::rat) < of_int T" using T by simp_all
  have xT: "x * of_int T = of_int W" using Tr by (simp add: x_def)
  have xW: "x \<le> of_int W"
  proof -
    have "x * 1 \<le> x * of_int T" using pos Tr(1) by (intro mult_left_mono) simp_all
    with xT show ?thesis by simp
  qed
  have f: "f32 x = f32_pos x" using pos by (rule f32_of_pos)
  have "\<lceil>f32 x\<rceil> = \<lceil>x\<rceil>"
  proof (cases "\<exists>k. x = of_int k")
    case True
    then obtain k where k: "x = of_int k" ..
    with pos have "0 < k" by simp
    moreover have "k \<le> 2 ^ 24"
    proof -
      have "(of_int k :: rat) \<le> of_int W" using xW k by simp
      then have "k \<le> W" by (simp only: of_int_le_iff)
      then show ?thesis using W by simp
    qed
    ultimately have "f32_pos (of_int k) = (of_int k :: rat)" by (rule f32_pos_int)
    with k f show ?thesis by simp
  next
    case False
    define n where "n = \<lceil>x\<rceil>"
    define e where "e = ilog2 x"
    have upper: "x \<le> of_int n" by (simp add: n_def)
    have lower: "of_int n - 1 < x" unfolding n_def by linarith
    from ilog2_bounds [OF pos] have b: "2 powi e \<le> x" by (simp add: e_def)
    have lt24: "x < 2 powi 24"
    proof -
      have "x \<le> 2 ^ 24" using xW of_int_le_2p24 [OF W(2)] by linarith
      moreover have "x \<noteq> of_int (2 ^ 24)" using False by blast
      ultimately show ?thesis by simp
    qed
    from powi_less_imp [OF b lt24] have e: "e \<le> 23" by simp
    define s :: int where "s = 2 ^ nat (23 - e)"
    have s1: "1 \<le> s" by (simp add: s_def)
    have sr: "(0::rat) < of_int s" using s1 by simp
    have u: "(2::rat) powi (e - 23) = 1 / of_int s"
      using powi_minus [of "23 - e"] e by (simp add: s_def powi_of_int)
    define m where "m = rne (x * of_int s)"
    have fm: "f32_pos x = of_int m / of_int s"
      unfolding f32_pos_eq e_def [symmetric] u m_def by simp
    have "x * of_int s \<le> of_int n * of_int s"
      using upper sr by (intro mult_right_mono) simp_all
    then have "x * of_int s \<le> of_int (n * s)" by simp
    from rne_le [OF this] have "m \<le> n * s" by (simp add: m_def)
    then have "(of_int m :: rat) \<le> of_int (n * s)"
      by (simp only: of_int_le_iff)
    then have "(of_int m :: rat) \<le> of_int n * of_int s" by simp
    then have up: "f32_pos x \<le> of_int n"
      unfolding fm using sr by (simp add: field_simps)
    have strict: "of_int T * 2 powi e < (2::rat) ^ 24"
    proof -
      have "2 powi e * of_int T \<le> x * of_int T"
        using b Tr(2) by (intro mult_right_mono) simp_all
      then have le: "of_int T * 2 powi e \<le> (of_int W :: rat)"
        using xT by (simp add: mult.commute)
      have W24: "(of_int W :: rat) \<le> 2 ^ 24"
        using W(2) by (rule of_int_le_2p24)
      show ?thesis
      proof (rule ccontr)
        assume "\<not> of_int T * 2 powi e < (2::rat) ^ 24"
        with le W24 have eq: "of_int T * 2 powi e = (of_int W :: rat)"
          and W': "(of_int W :: rat) = 2 ^ 24" by linarith+
        from eq xT have "x * of_int T = 2 powi e * of_int T" by (simp add: mult.commute)
        then have x: "x = 2 powi e" using Tr(2) by simp
        show False
        proof (cases "0 \<le> e")
          case True
          with x have "x = of_int (2 ^ nat e)" by (simp add: powi_of_int)
          with False show False by blast
        next
          case neg: False
          then have "(2::rat) powi e \<le> 2 powi 0" by (intro powi_mono) simp
          then have "x \<le> 1" using x by simp
          moreover have "1 \<le> x"
          proof -
            have "(of_int T :: rat) \<le> 2 ^ 24"
              using T(2) by (rule of_int_le_2p24)
            then have "1 * of_int T \<le> x * (of_int T :: rat)" using xT W' by simp
            then show ?thesis using Tr(2) by (simp only: mult_le_cancel_right_pos)
          qed
          ultimately have "x = of_int 1" by simp
          with False show False by blast
        qed
      qed
    qed
    have T2s: "(of_int T :: rat) < 2 * of_int s"
    proof -
      have "(2::rat) powi e = 2 ^ 23 / of_int s"
        using u sr by (simp add: powi_diff field_simps)
      with strict have "of_int T * (2 ^ 23 / of_int s) < (2::rat) ^ 24" by simp
      then show ?thesis using sr by (simp add: field_simps)
    qed
    have gapT: "1 \<le> (x - (of_int n - 1)) * of_int T"
    proof -
      have "(of_int n - 1) * of_int T < x * (of_int T :: rat)"
        using lower Tr(2) by (intro mult_strict_right_mono) simp_all
      then have "(of_int ((n - 1) * T) :: rat) < of_int W" using xT by simp
      then have "(n - 1) * T < W" by (simp only: of_int_less_iff)
      then have "1 \<le> W - (n - 1) * T" by simp
      then have "(1::rat) \<le> of_int (W - (n - 1) * T)" by (simp only: of_int_1_le_iff)
      also have "\<dots> = x * of_int T - (of_int n - 1) * of_int T"
        using xT by simp
      finally show ?thesis by (simp add: algebra_simps)
    qed
    have half: "1 / 2 < (x - (of_int n - 1)) * of_int s"
    proof -
      define g where "g = x - (of_int n - 1)"
      have g: "0 < g" using lower by (simp add: g_def)
      from T2s g have "g * of_int T < g * (2 * of_int s)" by (simp add: mult_strict_left_mono)
      with gapT show ?thesis unfolding g_def [symmetric] by simp
    qed
    have "\<bar>of_int m - x * of_int s\<bar> \<le> 1 / 2"
      unfolding m_def by (rule rne_close)
    then have cl: "x * of_int s - 1 / 2 \<le> of_int m" by linarith
    have "(x - (of_int n - 1)) * of_int s = x * of_int s - (of_int n - 1) * of_int s"
      by (simp add: algebra_simps)
    with half have "(of_int n - 1) * of_int s + 1 / 2 < x * of_int s" by linarith
    with cl have "(of_int n - 1) * of_int s < (of_int m :: rat)" by linarith
    then have low: "of_int n - 1 < f32_pos x"
      unfolding fm using sr by (simp add: field_simps)
    from low up have "\<lceil>f32_pos x\<rceil> = n" by (intro ceiling_unique) simp_all
    with f show ?thesis by (simp add: n_def)
  qed
  then show ?thesis by (simp only: x_def)
qed

lemma ceil_fdiv_exact:
  assumes "0 < W" "W \<le> 2 ^ 24" "0 < T" "T \<le> 2 ^ 24"
  shows "ceil_fdiv W T = Some \<lceil>(of_int W / of_int T :: rat)\<rceil>"
proof -
  define x :: rat where "x = of_int W / of_int T"
  define n where "n = \<lceil>x\<rceil>"
  have Tr: "(1::rat) \<le> of_int T" "(0::rat) < of_int T" using assms by simp_all
  have pos: "0 < x" using assms by (simp add: x_def)
  have xT: "x * of_int T = of_int W" using Tr by (simp add: x_def)
  have "x * 1 \<le> x * of_int T" using pos Tr(1) by (intro mult_left_mono) simp_all
  with xT have "x \<le> of_int W" by simp
  then have "n \<le> W" by (simp add: n_def ceiling_le_iff)
  moreover have "0 < n" using pos by (simp add: n_def)
  ultimately have "- (2 ^ 31) \<le> n \<and> n < 2 ^ 31" using assms(2) by simp
  then have n32: "in_int32 n" by (simp only: in_int32_def)
  have fW: "f32 (of_int W) = (of_int W :: rat)" and fT: "f32 (of_int T) = (of_int T :: rat)"
    using assms by (simp_all add: f32_int)
  have c: "\<lceil>f32 (f32 (of_int W) / f32 (of_int T))\<rceil> = n"
    unfolding fW fT ceiling_f32_quotient [OF assms] n_def x_def ..
  have "T \<noteq> 0" using assms by simp
  then have "ceil_fdiv W T = Some n"
    unfolding ceil_fdiv_def Let_def c using n32 by simp
  then show ?thesis by (simp only: n_def x_def)
qed

lemma f32_nonneg: "0 \<le> x \<Longrightarrow> 0 \<le> f32 x"
  using f32_pos_positive [of x] by (cases "x = 0") (auto simp: f32_def intro: less_imp_le)

lemma f32_pos_rel:
  assumes "0 < x"
  shows "\<bar>f32_pos x - x\<bar> \<le> x / 2 ^ 24"
proof -
  define u :: rat where "u = 2 powi (ilog2 x - 23)"
  define m where "m = x / u"
  have u0: "0 < u" by (simp add: u_def)
  have x: "x = m * u" using u0 by (simp add: m_def)
  have ue: "u = 2 powi (ilog2 x) / 2 ^ 23"
    unfolding u_def powi_diff by (simp add: powi_nat)
  from ilog2_bounds [OF assms] have "2 powi (ilog2 x) \<le> x" by simp
  then have ux: "u / 2 \<le> x / 2 ^ 24" unfolding ue by simp
  have "f32_pos x - x = (of_int (rne m) - m) * u"
    unfolding f32_pos_eq u_def [symmetric] m_def [symmetric] using x by (simp add: algebra_simps)
  then have "\<bar>f32_pos x - x\<bar> = \<bar>of_int (rne m) - m\<bar> * u"
    using u0 by (simp add: abs_mult)
  also have "\<dots> \<le> (1 / 2) * u"
    using rne_close [of m] u0 by (intro mult_right_mono) simp_all
  also have "\<dots> \<le> x / 2 ^ 24" using ux by simp
  finally show ?thesis .
qed

lemma f32_rel:
  assumes "0 < x"
  shows "x * (1 - 1 / 2 ^ 24) \<le> f32 x \<and> f32 x \<le> x * (1 + 1 / 2 ^ 24)"
proof -
  from f32_pos_rel [OF assms] have "\<bar>f32 x - x\<bar> \<le> x / 2 ^ 24"
    using assms by (simp add: f32_of_pos)
  then have "x - x / 2 ^ 24 \<le> f32 x" "f32 x \<le> x + x / 2 ^ 24" by linarith+
  then show ?thesis by (simp add: algebra_simps)
qed

lemma f32_1: "f32 1 = 1"
  using f32_int [of 1] by simp

lemma f32_100: "f32 100 = 100"
  using f32_int [of 100] by simp

text \<open>The four roundings of the progress value together change it by a factor within
  \<open>5 / 2 ^ 24\<close> of 1.\<close>

lemma progress_value_close:
  assumes k: "0 < k" "k \<le> N"
  defines "v \<equiv> (of_int (100 * k) / of_int N :: rat)"
  defines "z \<equiv> f32 (f32 (f32 (of_int k) / f32 (of_int N)) * f32 100)"
  shows "v * (1 - 5 / 2 ^ 24) \<le> z \<and> z \<le> v * (1 + 5 / 2 ^ 24)"
proof -
  define P :: rat where "P = 1 + 1 / 2 ^ 24"
  define M :: rat where "M = 1 - 1 / 2 ^ 24"
  define cu :: rat where "cu = P / M"
  define cl :: rat where "cl = M / P"
  define r :: rat where "r = of_int k / of_int N"
  define a :: rat where "a = f32 (of_int k)"
  define b :: rat where "b = f32 (of_int N)"
  define q :: rat where "q = f32 (a / b)"
  have N0: "0 < N" using k by simp
  have kr: "(0::rat) < of_int k" and Nr: "(0::rat) < of_int N" using k N0 by simp_all
  have r0: "0 < r" using kr Nr by (simp add: r_def)
  have P0: "0 < P" and M0: "0 < M" by (simp_all add: P_def M_def)
  from f32_rel [OF kr] have a: "of_int k * M \<le> a" "a \<le> of_int k * P"
    by (simp_all add: a_def P_def M_def)
  from f32_rel [OF Nr] have b: "of_int N * M \<le> b" "b \<le> of_int N * P"
    by (simp_all add: b_def P_def M_def)
  have lo: "0 < of_int k * M" "0 < of_int N * M"
    using kr Nr M0 by (simp_all add: mult_pos_pos)
  have a0: "0 < a" and b0: "0 < b" using a(1) b(1) lo by linarith+
  have t0: "0 < a / b" using a0 b0 by simp
  have tu: "a / b \<le> r * cu"
  proof -
    have "a / b \<le> (of_int k * P) / (of_int N * M)"
      using a0 a(2) b(1) lo(2) by (intro frac_le) simp_all
    also have "\<dots> = r * cu" by (simp add: r_def cu_def)
    finally show ?thesis .
  qed
  have tl: "r * cl \<le> a / b"
  proof -
    have "(of_int k * M) / (of_int N * P) \<le> a / b"
      using lo(1) a(1) b(2) b0 by (intro frac_le) simp_all
    moreover have "(of_int k * M) / (of_int N * P) = r * cl"
      by (simp add: r_def cl_def)
    ultimately show ?thesis by simp
  qed
  from f32_rel [OF t0] have q: "a / b * M \<le> q" "q \<le> a / b * P"
    by (simp_all add: q_def P_def M_def)
  have qu: "q \<le> r * cu * P"
    using q(2) mult_right_mono [OF tu less_imp_le [OF P0]] by (rule order_trans)
  have ql: "r * cl * M \<le> q"
    using mult_right_mono [OF tl less_imp_le [OF M0]] q(1) by (rule order_trans)
  have q0: "0 < q"
  proof -
    have "0 < a / b * M" using t0 M0 by (rule mult_pos_pos)
    with q(1) show ?thesis by linarith
  qed
  have w0: "0 < q * 100" using q0 by simp
  have z: "z = f32 (q * 100)"
    by (simp add: z_def q_def a_def b_def f32_100)
  from f32_rel [OF w0] have zb: "q * 100 * M \<le> z" "z \<le> q * 100 * P"
    by (simp_all add: z P_def M_def)
  have v: "v = r * 100" by (simp add: v_def r_def)
  have cP: "0 \<le> 100 * P" and cM: "0 \<le> 100 * M" using P0 M0 by simp_all
  have U: "z \<le> v * (1 + 5 / 2 ^ 24)"
  proof -
    have "z \<le> q * (100 * P)" using zb(2) by (simp only: mult.assoc)
    also have "\<dots> \<le> r * cu * P * (100 * P)" using qu cP by (rule mult_right_mono)
    also have "\<dots> = v * (cu * P * P)" unfolding v by (simp only: mult_ac)
    also have "\<dots> \<le> v * (1 + 5 / 2 ^ 24)"
    proof (rule mult_left_mono)
      show "cu * P * P \<le> 1 + 5 / 2 ^ 24" unfolding cu_def P_def M_def by simp
      show "0 \<le> v" unfolding v using r0 by simp
    qed
    finally show ?thesis .
  qed
  have L: "v * (1 - 5 / 2 ^ 24) \<le> z"
  proof -
    have "v * (1 - 5 / 2 ^ 24) \<le> v * (cl * M * M)"
    proof (rule mult_left_mono)
      show "1 - 5 / 2 ^ 24 \<le> cl * M * M" unfolding cl_def P_def M_def by simp
      show "0 \<le> v" unfolding v using r0 by simp
    qed
    also have "\<dots> = r * cl * M * (100 * M)" unfolding v by (simp only: mult_ac)
    also have "\<dots> \<le> q * (100 * M)" using ql cM by (rule mult_right_mono)
    also have "\<dots> \<le> z" using zb(1) by (simp only: mult.assoc)
    finally show ?thesis .
  qed
  from L U show ?thesis ..
qed

lemma progress_percent_close:
  assumes "0 \<le> k" "k \<le> N" "0 < N"
  shows "\<exists>p. progress_percent k N = Some p
           \<and> \<lfloor>(of_int (100 * k) / of_int N :: rat) - 1 / 2 ^ 15\<rfloor> \<le> p
           \<and> p \<le> \<lfloor>(of_int (100 * k) / of_int N :: rat) + 1 / 2 ^ 15\<rfloor>
           \<and> \<bar>p - (100 * k) div N\<bar> \<le> 1
           \<and> 0 \<le> p \<and> p \<le> 100
           \<and> (k = 0 \<longrightarrow> p = 0) \<and> (k = N \<longrightarrow> p = 100)"
proof -
  define v :: rat where "v = of_int (100 * k) / of_int N"
  define z :: rat where "z = f32 (f32 (f32 (of_int k) / f32 (of_int N)) * f32 100)"
  define d :: rat where "d = 1 / 2 ^ 15"
  have Nr: "(0::rat) < of_int N" using assms by simp
  have pp: "progress_percent k N = Some \<lfloor>z\<rfloor>"
    using assms(3) by (simp add: progress_percent_def z_def)
  have v0: "0 \<le> v" using assms Nr by (simp add: v_def)
  have "100 * k \<le> 100 * N" using assms(2) by simp
  then have "(of_int (100 * k) :: rat) \<le> of_int (100 * N)"
    by (simp only: of_int_le_iff)
  then have v100: "v \<le> 100" using Nr by (simp add: v_def field_simps)
  have fl: "\<lfloor>v\<rfloor> = (100 * k) div N"
    unfolding v_def by (rule floor_divide_of_int_eq)
  have close: "v - d \<le> z \<and> z \<le> v + d"
  proof (cases "k = 0")
    case True
    then show ?thesis by (simp add: z_def v_def d_def f32_def)
  next
    case False
    with assms have "0 < k" by simp
    define w where "w = v * (5 / 2 ^ 24)"
    from progress_value_close [OF \<open>0 < k\<close> assms(2)]
    have b: "v * (1 - 5 / 2 ^ 24) \<le> z" "z \<le> v * (1 + 5 / 2 ^ 24)"
      by (simp_all add: v_def z_def)
    have "w \<le> 100 * (5 / 2 ^ 24)"
      unfolding w_def using v100 by (intro mult_right_mono) simp_all
    also have "\<dots> \<le> d" by (simp add: d_def)
    finally have e: "w \<le> d" .
    have "v * (1 - 5 / 2 ^ 24) = v - w" "v * (1 + 5 / 2 ^ 24) = v + w"
      unfolding w_def by (simp_all only: right_diff_distrib distrib_left mult_1_right)
    with b have "v - w \<le> z" "z \<le> v + w" by simp_all
    with e show ?thesis by linarith
  qed
  have lo: "\<lfloor>v - d\<rfloor> \<le> \<lfloor>z\<rfloor>" and hi: "\<lfloor>z\<rfloor> \<le> \<lfloor>v + d\<rfloor>"
    using close by (simp_all add: floor_mono)
  have d1: "0 \<le> d" "d < 1" by (simp_all add: d_def)
  have hi1: "\<lfloor>v + d\<rfloor> \<le> \<lfloor>v\<rfloor> + 1"
  proof -
    have "v + d < of_int (\<lfloor>v\<rfloor> + 1) + 1" using d1 by simp linarith
    then have "\<lfloor>v + d\<rfloor> < \<lfloor>v\<rfloor> + 1 + 1" by (simp only: floor_less_iff of_int_add of_int_1)
    then show ?thesis by simp
  qed
  have lo1: "\<lfloor>v\<rfloor> - 1 \<le> \<lfloor>v - d\<rfloor>"
  proof -
    have "of_int (\<lfloor>v\<rfloor> - 1) \<le> v - d" using d1 by simp linarith
    then show ?thesis by (simp only: le_floor_iff)
  qed
  have near: "\<bar>\<lfloor>z\<rfloor> - (100 * k) div N\<bar> \<le> 1"
    using lo hi lo1 hi1 unfolding fl by linarith
  have z0: "0 \<le> \<lfloor>z\<rfloor>"
  proof -
    have "0 \<le> z" unfolding z_def using assms
      by (intro f32_nonneg mult_nonneg_nonneg divide_nonneg_nonneg) simp_all
    then show ?thesis by simp
  qed
  have z100: "\<lfloor>z\<rfloor> \<le> 100"
  proof -
    have "v + d < 101" using v100 d1 by linarith
    then have "\<lfloor>v + d\<rfloor> < 101" by (simp add: floor_less_iff)
    with hi show ?thesis by linarith
  qed
  have e0: "k = 0 \<longrightarrow> \<lfloor>z\<rfloor> = 0" by (simp add: z_def f32_def)
  have eN: "k = N \<longrightarrow> \<lfloor>z\<rfloor> = 100"
  proof
    assume "k = N"
    from f32_rel [OF Nr] have "0 < f32 (of_int N :: rat)"
      using Nr by (simp add: f32_of_pos f32_pos_positive)
    then have "f32 (of_int N) / f32 (of_int N :: rat) = 1" by simp
    then have "z = 100" unfolding z_def \<open>k = N\<close> by (simp add: f32_1 f32_100)
    then show "\<lfloor>z\<rfloor> = 100" by simp
  qed
  from pp lo hi near z0 z100 e0 eN show ?thesis
    unfolding v_def d_def by blast
qed

section \<open>Facts about the steps of \<open>Setup\<close>\<close>

lemma to_uint32_range: "0 \<le> to_uint32 v \<and> to_uint32 v < 2 ^ 32"
  by (simp add: to_uint32_def)

lemma sampler_round_eq: "sampler_round str = max 1 (min 1024 (to_uint32 (atoi str)))"
  by (simp add: sampler_round_def Let_def)

lemma preserves_and_then:
  assumes "preserves I g" and "preserves I f"
  shows "preserves I (\<lambda>s. and_then (g s) f)"
  unfolding preserves_def
proof (intro allI impI)
  fix s :: system assume t: "I s"
  with assms(1) have g: "I (step_state (g s))"
    by (simp add: preserves_def)
  show "I (step_state (and_then (g s) f))"
  proof (cases "g s")
    case (Inl out)
    with g show ?thesis by (simp add: and_then_def step_state_def)
  next
    case (Inr s')
    with g have "I s'" by (simp add: step_state_def)
    with assms(2) have "I (step_state (f s'))" by (simp add: preserves_def)
    with Inr show ?thesis by (simp add: and_then_def)
  qed
qed

lemma preserves_same_trace:
  "(\<And>s. trace (step_state (f s)) = trace s) \<Longrightarrow> preserves (\<lambda>s. extends_by P t (trace s)) f"
  by (simp add: preserves_def)

lemma preserves_snoc:
  assumes "\<And>s. trace (step_state (f s)) = trace s
              \<or> (\<exists>e. P e \<and> trace (step_state (f s)) = trace s @ [e])"
  shows "preserves (\<lambda>s. extends_by P t (trace s)) f"
  unfolding preserves_def
proof (intro allI impI)
  fix s :: system assume t: "extends_by P t (trace s)"
  from assms [of s] show "extends_by P t (trace (step_state (f s)))"
  proof
    assume "trace (step_state (f s)) = trace s" with t show ?thesis by simp
  next
    assume "\<exists>e. P e \<and> trace (step_state (f s)) = trace s @ [e]"
    then obtain e where "P e" "trace (step_state (f s)) = trace s @ [e]" by blast
    with t show ?thesis by (auto simp: extends_by_def)
  qed
qed

lemma trace_setup_sensor: "trace (step_state (setup_sensor env s)) = trace s"
  by (simp add: setup_sensor_def step_state_def)

lemma trace_setup_scene:
  "trace (step_state (setup_scene xml_root s)) = trace s
   \<or> (\<exists>p. trace (step_state (setup_scene xml_root s)) = trace s @ [Load_Scene p])"
  by (simp add: setup_scene_def step_state_def outcome_state_def emit_def split: option.splits)

lemma trace_integrator_properties:
  "trace (step_state (integrator_properties ps s)) = trace s"
  by (induction ps arbitrary: s) (auto simp: step_state_def outcome_state_def split: option.splits)

lemma trace_setup_integrator:
  "trace (step_state (setup_integrator xml_root s)) = trace s"
proof (cases "FirstChildElement ''Integrator'' xml_root")
  case None
  then show ?thesis by (simp add: setup_integrator_def step_state_def outcome_state_def)
next
  case (Some el)
  show ?thesis
  proof (cases "Attribute ''type'' el")
    case None
    with Some show ?thesis by (simp add: setup_integrator_def step_state_def outcome_state_def)
  next
    case (Some ty)
    with \<open>FirstChildElement ''Integrator'' xml_root = Some el\<close>
    have "setup_integrator xml_root s
          = integrator_properties (Properties el) (s\<lparr>m_integratorType := ty\<rparr>)"
      by (simp add: setup_integrator_def)
    then show ?thesis by (simp add: trace_integrator_properties)
  qed
qed

lemma trace_setup_size: "trace (step_state (setup_size xml_root s)) = trace s"
  by (simp add: setup_size_def step_state_def outcome_state_def SetSensorSize_def
      split: option.splits)

lemma trace_setup_sampler:
  "FirstChildElement ''Sampler'' xml_root = Some el \<Longrightarrow>
   trace (step_state (setup_sampler env xml_root s)) = trace s
   \<or> (\<exists>ty str. Attribute ''round'' el = Some str
         \<and> trace (step_state (setup_sampler env xml_root s))
             = trace s @ [Round_Size ty (sampler_round str)])"
  by (auto simp: setup_sampler_def call_RoundSize_def step_state_def outcome_state_def emit_def
      split: option.splits)

lemma trace_setup_camera: "trace (step_state (setup_camera env xml_root s)) = trace s"
  by (simp add: setup_camera_def step_state_def outcome_state_def split: option.splits)

lemma trace_setup_output: "trace (step_state (setup_output xml_root s)) = trace s"
  by (simp add: setup_output_def step_state_def outcome_state_def split: option.splits)

lemma trace_setup_threads: "trace (step_state (setup_threads xml_root s)) = trace s"
  by (simp add: setup_threads_def step_state_def outcome_state_def split: option.splits)

lemma trace_setup_camera_sensor: "trace (step_state (setup_camera_sensor s)) = trace s"
  by (simp add: setup_camera_sensor_def step_state_def outcome_state_def split: option.splits)

lemma trace_setup_shared_memory:
  "trace (step_state (setup_shared_memory env s)) = trace s"
  by (simp add: setup_shared_memory_def step_state_def outcome_state_def Let_def
      split: option.splits)

lemma Setup_state:
  "outcome_state (Setup env (Some xml_root) s0) =
   step_state (and_then (setup_sensor env s0) (\<lambda>s.
               and_then (setup_scene xml_root s) (\<lambda>s.
               and_then (setup_integrator xml_root s) (\<lambda>s.
               and_then (setup_size xml_root s) (\<lambda>s.
               and_then (setup_sampler env xml_root s) (\<lambda>s.
               and_then (setup_camera env xml_root s) (\<lambda>s.
               and_then (setup_output xml_root s) (\<lambda>s.
               and_then (setup_threads xml_root s) (\<lambda>s.
               and_then (setup_camera_sensor s) (\<lambda>s.
               setup_shared_memory env s))))))))))"
  by (simp add: Setup_def setup_config_def step_state_def outcome_state_def and_then_def
      split: sum.splits)

lemma Setup_rounds:
  assumes smp: "FirstChildElement ''Sampler'' xml_root = Some el"
  shows "extends_by (clamped_round el) (trace s0)
           (trace (outcome_state (Setup env (Some xml_root) s0)))"
proof -
  have scene: "preserves (\<lambda>s. extends_by (clamped_round el) t (trace s)) (setup_scene xml_root)"
    for t
    by (rule preserves_snoc) (use trace_setup_scene in \<open>fastforce simp: clamped_round_def\<close>)
  have sampler:
    "preserves (\<lambda>s. extends_by (clamped_round el) t (trace s)) (setup_sampler env xml_root)"
    for t
  proof (rule preserves_snoc)
    fix s
    from trace_setup_sampler [OF smp, of env s]
    show "trace (step_state (setup_sampler env xml_root s)) = trace s
          \<or> (\<exists>e. clamped_round el e
                  \<and> trace (step_state (setup_sampler env xml_root s)) = trace s @ [e])"
      by (fastforce simp: clamped_round_def sampler_round_eq)
  qed
  have "preserves (\<lambda>s. extends_by (clamped_round el) (trace s0) (trace s))
          (\<lambda>s. and_then (setup_sensor env s) (\<lambda>s.
               and_then (setup_scene xml_root s) (\<lambda>s.
               and_then (setup_integrator xml_root s) (\<lambda>s.
               and_then (setup_size xml_root s) (\<lambda>s.
               and_then (setup_sampler env xml_root s) (\<lambda>s.
               and_then (setup_camera env xml_root s) (\<lambda>s.
               and_then (setup_output xml_root s) (\<lambda>s.
               and_then (setup_threads xml_root s) (\<lambda>s.
               and_then (setup_camera_sensor s) (\<lambda>s.
               setup_shared_memory env s))))))))))"
    by (intro preserves_and_then scene sampler preserves_same_trace trace_setup_sensor
        trace_setup_integrator trace_setup_size trace_setup_camera trace_setup_output
        trace_setup_threads trace_setup_camera_sensor trace_setup_shared_memory)
  moreover have "extends_by (clamped_round el) (trace s0) (trace s0)"
    by (simp add: extends_by_def)
  ultimately show ?thesis
    unfolding Setup_state preserves_def by blast
qed













section \<open>The claims about \<open>Setup\<close>\<close>




text \<open>
  Claim C10. When the file has a Sampler element, the argument of every call of
  \<open>RoundSize\<close> that \<open>Setup\<close> makes is the value of the element's \<open>round\<close> attribute as
  \<open>atoi\<close> parses it, converted to \<open>unsigned\<close> and clamped: raised to 1 when below,
  lowered to 1024 when above, unchanged in between. So it is at least 1 and at most
  1024, whatever the attribute holds; \<open>es\<close> is what \<open>Setup\<close> adds to the trace, on every
  path out of it.
\<close>

theorem Setup_RoundSize_argument:
  assumes "FirstChildElement ''Sampler'' xml_root = Some el"
  shows "\<exists>es. trace (outcome_state (Setup env (Some xml_root) s0)) = trace s0 @ es
            \<and> (\<forall>ty n. Round_Size ty n \<in> set es \<longrightarrow>
                 (\<exists>str_round. Attribute ''round'' el = Some str_round
                    \<and> n = max 1 (min 1024 (to_uint32 (atoi str_round))))
                 \<and> 1 \<le> n \<and> n \<le> 1024)"
proof -
  from Setup_rounds [OF assms, of s0 env] obtain es where
    es: "trace (outcome_state (Setup env (Some xml_root) s0)) = trace s0 @ es"
    and ok: "list_all (clamped_round el) es"
    by (auto simp: extends_by_def)
  have "(\<exists>str_round. Attribute ''round'' el = Some str_round
           \<and> n = max 1 (min 1024 (to_uint32 (atoi str_round))))
        \<and> 1 \<le> n \<and> n \<le> 1024" if "Round_Size ty n \<in> set es" for ty n
  proof -
    from ok that have "clamped_round el (Round_Size ty n)" by (simp add: list_all_iff)
    then obtain str_round where s: "Attribute ''round'' el = Some str_round"
      "n = max 1 (min 1024 (to_uint32 (atoi str_round)))"
      by (auto simp: clamped_round_def)
    from s(2) have "1 \<le> n \<and> n \<le> 1024" by simp
    with s show ?thesis by blast
  qed
  with es show ?thesis by blast
qed

text \<open>
  Claim C10, the theorem at two files: a \<open>round\<close> of \<open>16\<close> reaches \<open>RoundSize\<close> as 16, a
  \<open>round\<close> of \<open>-7\<close> (a large \<open>unsigned\<close>) as 1024.
\<close>

theorem Setup_RoundSize_argument_witness:
  "FirstChildElement ''Sampler'' sampler_doc
     = Some (Element ''Sampler'' [(''type'', ''random''), (''round'', ''16'')] [])
   \<and> trace (outcome_state (Setup (example_env True False) (Some sampler_doc) new_system))
       = [Load_Scene ''scene.xml'', Round_Size ''random'' 16]
   \<and> max 1 (min 1024 (to_uint32 (atoi ''16''))) = 16
   \<and> trace (outcome_state (Setup (example_env True False) (Some sampler_doc_negative) new_system))
       = [Load_Scene ''scene.xml'', Round_Size ''random'' 1024]
   \<and> (\<exists>es. trace (outcome_state (Setup (example_env True False) (Some sampler_doc) new_system))
             = trace new_system @ es
           \<and> (\<forall>ty n. Round_Size ty n \<in> set es \<longrightarrow>
                 (\<exists>str_round.
                     Attribute ''round''
                       (Element ''Sampler'' [(''type'', ''random''), (''round'', ''16'')] [])
                       = Some str_round
                     \<and> n = max 1 (min 1024 (to_uint32 (atoi str_round))))
                 \<and> 1 \<le> n \<and> n \<le> 1024))"
proof -
  have h: "FirstChildElement ''Sampler'' sampler_doc
             = Some (Element ''Sampler'' [(''type'', ''random''), (''round'', ''16'')] [])"
    by (simp add: sampler_doc_def example_doc_def FirstChildElement_def)
  have 1: "trace (outcome_state (Setup (example_env True False) (Some sampler_doc) new_system))
        = [Load_Scene ''scene.xml'', Round_Size ''random'' 16]"
    by code_simp
  have 2: "max 1 (min 1024 (to_uint32 (atoi ''16''))) = 16"
    by code_simp
  have 3: "trace (outcome_state (Setup (example_env True False) (Some sampler_doc_negative)
             new_system))
        = [Load_Scene ''scene.xml'', Round_Size ''random'' 1024]"
    by code_simp
  from h 1 2 3 Setup_RoundSize_argument [OF h, of "example_env True False" new_system]
  show ?thesis by blast
qed

section \<open>Facts about \<open>Render\<close>\<close>

lemma extends_by_refl: "extends_by P t t"
  by (simp add: extends_by_def)

lemma extends_by_trans [trans]:
  "extends_by P a b \<Longrightarrow> extends_by P b c \<Longrightarrow> extends_by P a c"
  by (auto simp: extends_by_def)

lemma extends_by_emit: "P e \<Longrightarrow> extends_by P (trace s) (trace (emit e s))"
  by (simp add: extends_by_def emit_def)

lemma extends_by_emit_all: "list_all P es \<Longrightarrow> extends_by P (trace s) (trace (emit_all es s))"
  by (simp add: extends_by_def emit_all_def)

lemma PreProcess_trace:
  "extends_by (\<lambda>e. \<not> worker_event e \<and> \<not> is_push e) (trace s) (trace (PreProcess env s))"
  by (simp add: PreProcess_def Let_def extends_by_def emit_def worker_event_def is_push_def)

lemma pushRenderTask_trace:
  assumes "pushRenderTask env s = Some out"
  shows "extends_by (\<lambda>e. \<not> worker_event e) (trace s) (trace (outcome_state out))"
  using assms
  by (auto simp: pushRenderTask_def extends_by_def outcome_state_def list_all_iff worker_event_def
      split: option.splits sum.splits prod.splits)

lemma outputProgress_trace:
  "extends_by (\<lambda>e. \<not> is_push e) (trace s) (trace (outcome_state (outputProgress env s)))"
  by (auto simp: outputProgress_def extends_by_def outcome_state_def emit_def Let_def is_push_def
      split: option.splits)

lemma trace_workers_joined [simp]: "trace (workers_joined s) = trace s"
  by (simp add: workers_joined_def)

lemma run_threads_trace:
  "extends_by (\<lambda>e. \<not> is_push e) (trace s) (trace (run_threads s))"
proof -
  let ?P = "\<lambda>e. \<not> is_push e"
  let ?s3 = "emit_all (map PreMalloc (thread_ids s)) s"
  let ?s4 = "emit_all (map Thread_Create (thread_ids ?s3)) ?s3"
  let ?s5 = "emit_all (map Thread_Begin (thread_ids ?s4)) ?s4"
  let ?s6 = "workers_joined (emit_all (map Thread_Join (thread_ids ?s5)) ?s5)"
  have np: "list_all ?P (map PreMalloc xs)" "list_all ?P (map Thread_Create xs)"
    "list_all ?P (map Thread_Begin xs)" "list_all ?P (map Thread_Join xs)" for xs
    by (simp_all add: list_all_iff is_push_def)
  have "extends_by ?P (trace s) (trace ?s3)"
    by (rule extends_by_emit_all) (rule np)
  also have "extends_by ?P (trace ?s3) (trace ?s4)"
    by (rule extends_by_emit_all) (rule np)
  also have "extends_by ?P (trace ?s4) (trace ?s5)"
    by (rule extends_by_emit_all) (rule np)
  also have "extends_by ?P (trace ?s5) (trace ?s6)"
    unfolding trace_workers_joined by (rule extends_by_emit_all) (rule np)
  finally show ?thesis by (simp add: run_threads_def Let_def)
qed

lemma executeRenderingTasks_trace:
  "extends_by (\<lambda>e. \<not> is_push e) (trace s) (trace (outcome_state (executeRenderingTasks env s)))"
proof -
  let ?P = "\<lambda>e. \<not> is_push e"
  let ?s1 = "emit Sensor_PreProcess s"
  let ?s2 = "emit Integrator_SetupCamera (emit Integrator_PreProcess ?s1)"
  have "extends_by ?P (trace s) (trace ?s2)"
    by (simp add: extends_by_def emit_def is_push_def)
  also have "extends_by ?P (trace ?s2) (trace (run_threads ?s2))"
    by (rule run_threads_trace)
  also have "extends_by ?P (trace (run_threads ?s2))
               (trace (outcome_state (outputProgress env (run_threads ?s2))))"
    by (rule outputProgress_trace)
  finally have 7: "extends_by ?P (trace s)
                     (trace (outcome_state (outputProgress env (run_threads ?s2))))" .
  show ?thesis
  proof (cases "m_imagesensor s")
    case None
    then show ?thesis by (simp add: executeRenderingTasks_def outcome_state_def extends_by_refl)
  next
    case (Some img)
    show ?thesis
    proof (cases "can_create_integrator env (m_integratorType ?s1)")
      case False
      with Some show ?thesis
        by (simp add: executeRenderingTasks_def outcome_state_def extends_by_def emit_def
            is_push_def)
    next
      case True
      show ?thesis
      proof (cases "outputProgress env (run_threads ?s2)")
        case (Done u s7)
        with 7 have "extends_by ?P (trace s) (trace (emit Sensor_PostProcess s7))"
          by (auto simp: extends_by_def outcome_state_def emit_def is_push_def)
        with Some True Done show ?thesis
          by (simp add: executeRenderingTasks_def Let_def outcome_state_def)
      next
        case (Crashed e s7)
        with 7 Some True show ?thesis
          by (simp add: executeRenderingTasks_def Let_def outcome_state_def)
      qed
    qed
  qed
qed

section \<open>The progress report\<close>

lemma count_done_range: "0 \<le> count_done s \<and> (0 \<le> m_totalTask s \<longrightarrow> count_done s \<le> m_totalTask s)"
proof -
  have "length (filter (\<lambda>b. b) (take (nat (m_totalTask s)) (m_taskDone s)))
        \<le> length (take (nat (m_totalTask s)) (m_taskDone s))"
    by (rule length_filter_le)
  also have "\<dots> \<le> nat (m_totalTask s)" by simp
  finally show ?thesis by (auto simp: count_done_def)
qed

lemma outputProgress_eq:
  assumes "progress_percent (count_done s) (m_totalTask s) = Some p" and "0 \<le> p" and "p \<le> 100"
  shows "outputProgress env s = Done () (reported env s p)"
proof -
  from assms(2,3) have "p mod 256 = p" by simp
  then show ?thesis
    by (simp add: outputProgress_def assms(1) reported_def Let_def emit_def store_byte_def
        split: option.splits)
qed

lemma outputProgress_null:
  assumes "m_pProgress s = None" and "progress_percent (count_done s) (m_totalTask s) = Some p"
  shows "outputProgress env s
         = Done () (s\<lparr>trace := trace s @
                (if g_bBlenderMode env then [Cout_Endl] else [Cout_Progress p, Cout_Endl])\<rparr>)"
  by (simp add: outputProgress_def assms Let_def emit_def)

lemma outputProgress_null_bytes:
  assumes "m_pProgress s = None"
  shows "shared_bytes (outcome_state (outputProgress env s)) = shared_bytes s"
  by (simp add: outputProgress_def assms Let_def emit_def outcome_state_def split: option.splits)

text \<open>
  Claim C6, as amended. For a total of \<open>N > 0\<close> tasks of which \<open>k\<close> have their
  completion flag set, the report computes \<open>p = (unsigned)((float)k / (float)N * 100)\<close>.
  The four roundings to \<open>float\<close> keep \<open>p\<close> between \<open>floor(100 * k / N - 2 ^ -15)\<close> and
  \<open>floor(100 * k / N + 2 ^ -15)\<close>: it is \<open>floor(100 * k / N)\<close> unless \<open>100 * k / N\<close> is
  that close to a whole number, and never more than 1 away from it; it is 0 when no flag
  is set and 100 when all are. In Blender mode with \<open>m_pProgress\<close> set the report stores
  \<open>p\<close> in the byte \<open>m_pProgress\<close> points at and prints only the end of line; in Blender
  mode with a null \<open>m_pProgress\<close> it stores nothing; outside Blender mode it prints \<open>p\<close>
  and leaves the shared memory alone (\<open>reported\<close>).
\<close>

theorem outputProgress_report:
  assumes "0 < m_totalTask s"
  shows "\<exists>p. progress_percent (count_done s) (m_totalTask s) = Some p
           \<and> \<lfloor>(of_int (100 * count_done s) / of_int (m_totalTask s) :: rat) - 1 / 2 ^ 15\<rfloor> \<le> p
           \<and> p \<le> \<lfloor>(of_int (100 * count_done s) / of_int (m_totalTask s) :: rat) + 1 / 2 ^ 15\<rfloor>
           \<and> \<bar>p - (100 * count_done s) div m_totalTask s\<bar> \<le> 1
           \<and> (count_done s = 0 \<longrightarrow> p = 0) \<and> (count_done s = m_totalTask s \<longrightarrow> p = 100)
           \<and> outputProgress env s = Done () (reported env s p)"
proof -
  from count_done_range [of s] assms
  have k: "0 \<le> count_done s" "count_done s \<le> m_totalTask s" by auto
  from progress_percent_close [OF k assms] obtain p where
    p: "progress_percent (count_done s) (m_totalTask s) = Some p"
      "\<lfloor>(of_int (100 * count_done s) / of_int (m_totalTask s) :: rat) - 1 / 2 ^ 15\<rfloor> \<le> p"
      "p \<le> \<lfloor>(of_int (100 * count_done s) / of_int (m_totalTask s) :: rat) + 1 / 2 ^ 15\<rfloor>"
      "\<bar>p - (100 * count_done s) div m_totalTask s\<bar> \<le> 1"
      "0 \<le> p" "p \<le> 100"
      "count_done s = 0 \<longrightarrow> p = 0" "count_done s = m_totalTask s \<longrightarrow> p = 100"
    by blast
  from outputProgress_eq [OF p(1) p(5) p(6)]
  have "outputProgress env s = Done () (reported env s p)" .
  with p show ?thesis by blast
qed

text \<open>
  Claim C6, the theorem at a concrete state: 53 of 100 tasks done, Blender mode. The
  byte becomes 52, one below \<open>floor(100 * 53 / 100)\<close>.
\<close>

theorem outputProgress_report_witness:
  "0 < m_totalTask done_53 \<and> count_done done_53 = 53 \<and> m_totalTask done_53 = 100
   \<and> progress_percent 53 100 = Some 52
   \<and> outputProgress (example_env True True) done_53
       = Done () (reported (example_env True True) done_53 52)
   \<and> \<bar>52 - (100 * count_done done_53) div m_totalTask done_53\<bar> \<le> 1
   \<and> shared_bytes (reported (example_env True True) done_53 52) = Some [52, 0]"
proof -
  have 1: "0 < m_totalTask done_53" by (simp add: done_53_def new_system_def preInit_def)
  have 2: "count_done done_53 = 53" by code_simp
  have 3: "m_totalTask done_53 = 100" by (simp add: done_53_def new_system_def preInit_def)
  have 4: "progress_percent 53 100 = Some 52" by code_simp
  have 5: "shared_bytes (reported (example_env True True) done_53 52) = Some [52, 0]"
    by code_simp
  from outputProgress_report [OF 1, of "example_env True True"] obtain p where
    p: "progress_percent (count_done done_53) (m_totalTask done_53) = Some p"
      "\<bar>p - (100 * count_done done_53) div m_totalTask done_53\<bar> \<le> 1"
      "outputProgress (example_env True True) done_53
       = Done () (reported (example_env True True) done_53 p)"
    by blast
  from p(1) have "p = 52" unfolding 2 3 4 by simp
  with p 1 2 3 4 5 show ?thesis by blast
qed

text \<open>
  Claim C6 as stated fails in three ways. Outside Blender mode the progress byte is not
  written: with 1 of 2 tasks done it stays 0, not 50. In Blender mode the value is not
  always \<open>floor(100 * k / N)\<close>: with 53 of 100 tasks done the byte becomes 52, because
  \<open>53 / 100\<close> rounds down in \<open>float\<close> and the product with 100 stays below 53; and with
  116303 of 147219 tasks done the value is 79, where \<open>floor(100 * k / N)\<close> is 78.
\<close>

theorem outputProgress_report_counterexample:
  "shared_bytes (outcome_state (outputProgress (example_env False True) half_done)) = Some [0, 0]
   \<and> m_pProgress half_done = Some 0 \<and> shared_bytes half_done = Some [0, 0]
   \<and> count_done half_done = 1 \<and> m_totalTask half_done = 2 \<and> (100 * 1) div 2 = (50 :: int)
   \<and> shared_bytes (outcome_state (outputProgress (example_env True True) done_53)) = Some [52, 0]
   \<and> m_pProgress done_53 = Some 0 \<and> shared_bytes done_53 = Some [0, 0]
   \<and> count_done done_53 = 53 \<and> m_totalTask done_53 = 100 \<and> (100 * 53) div 100 = (53 :: int)
   \<and> progress_percent 116303 147219 = Some 79 \<and> (100 * 116303) div 147219 = (78 :: int)"
  by code_simp

section \<open>\<open>Setup\<close> and the shared memory\<close>

lemma and_then_never_true:
  "never_true r \<Longrightarrow> (\<And>s. never_true (f s)) \<Longrightarrow> never_true (and_then r f)"
  by (cases r) (auto simp: never_true_def and_then_def)

lemma never_true_integrator_properties: "never_true (integrator_properties ps s)"
  by (induction ps arbitrary: s) (auto simp: never_true_def split: option.splits)

lemma never_true_setup_integrator: "never_true (setup_integrator xml_root s)"
  using never_true_integrator_properties
  by (auto simp: never_true_def setup_integrator_def split: option.splits)

lemma never_true_steps:
  "never_true (setup_sensor env s)" "never_true (setup_scene xml_root s)"
  "never_true (setup_size xml_root s)"
  "never_true (setup_sampler env xml_root s)" "never_true (setup_camera env xml_root s)"
  "never_true (setup_output xml_root s)" "never_true (setup_threads xml_root s)"
  "never_true (setup_camera_sensor s)"
proof -
  show "never_true (setup_sensor env s)" by (simp add: never_true_def setup_sensor_def)
  show "never_true (setup_scene xml_root s)"
    by (simp add: never_true_def setup_scene_def split: option.splits)
  show "never_true (setup_size xml_root s)"
    by (simp add: never_true_def setup_size_def split: option.splits)
  show "never_true (setup_sampler env xml_root s)"
    by (simp add: never_true_def setup_sampler_def call_RoundSize_def split: option.splits)
  show "never_true (setup_camera env xml_root s)"
    by (simp add: never_true_def setup_camera_def split: option.splits)
  show "never_true (setup_output xml_root s)"
    by (simp add: never_true_def setup_output_def split: option.splits)
  show "never_true (setup_threads xml_root s)"
    by (simp add: never_true_def setup_threads_def split: option.splits)
  show "never_true (setup_camera_sensor s)"
    by (simp add: never_true_def setup_camera_sensor_def split: option.splits)
qed

lemma never_true_shared_memory: "never_true (setup_shared_memory env s)"
  by (simp add: never_true_def setup_shared_memory_def Let_def split: option.splits)

lemma never_true_setup_config: "never_true (setup_config env doc s)"
proof (cases doc)
  case None
  then show ?thesis
    by (simp add: setup_config_def never_true_def and_then_def setup_sensor_def)
next
  case (Some xml_root)
  show ?thesis
    unfolding setup_config_def Some option.case
    by (intro and_then_never_true never_true_steps never_true_setup_integrator)
qed

text \<open>\<open>Setup\<close> returns \<open>true\<close> only from its last line.\<close>

lemma Setup_true:
  assumes "Setup env doc s0 = Done True s"
  shows "\<exists>s1. setup_config env doc s0 = Inr s1 \<and> setup_shared_memory env s1 = Inr s"
proof (cases "setup_config env doc s0")
  case (Inl out)
  with assms never_true_setup_config [of env doc s0] show ?thesis
    by (simp add: Setup_def and_then_def never_true_def)
next
  case (Inr s1)
  with assms never_true_shared_memory [of env s1] show ?thesis
    by (cases "setup_shared_memory env s1") (auto simp: Setup_def and_then_def never_true_def)
qed

lemma pProgress_integrator_properties:
  "m_pProgress (step_state (integrator_properties ps s)) = m_pProgress s"
  by (induction ps arbitrary: s) (auto simp: step_state_def outcome_state_def split: option.splits)

lemma pProgress_setup_integrator:
  "m_pProgress (step_state (setup_integrator xml_root s)) = m_pProgress s"
proof (cases "FirstChildElement ''Integrator'' xml_root")
  case None
  then show ?thesis by (simp add: setup_integrator_def step_state_def outcome_state_def)
next
  case (Some el)
  show ?thesis
  proof (cases "Attribute ''type'' el")
    case None
    with Some show ?thesis by (simp add: setup_integrator_def step_state_def outcome_state_def)
  next
    case (Some ty)
    with \<open>FirstChildElement ''Integrator'' xml_root = Some el\<close>
    have "setup_integrator xml_root s
          = integrator_properties (Properties el) (s\<lparr>m_integratorType := ty\<rparr>)"
      by (simp add: setup_integrator_def)
    then show ?thesis by (simp add: pProgress_integrator_properties)
  qed
qed

lemma pProgress_steps:
  "m_pProgress (step_state (setup_sensor env s)) = m_pProgress s"
  "m_pProgress (step_state (setup_scene xml_root s)) = m_pProgress s"
  "m_pProgress (step_state (setup_size xml_root s)) = m_pProgress s"
  "m_pProgress (step_state (setup_sampler env xml_root s)) = m_pProgress s"
  "m_pProgress (step_state (setup_camera env xml_root s)) = m_pProgress s"
  "m_pProgress (step_state (setup_output xml_root s)) = m_pProgress s"
  "m_pProgress (step_state (setup_threads xml_root s)) = m_pProgress s"
  "m_pProgress (step_state (setup_camera_sensor s)) = m_pProgress s"
proof -
  note [simp] = step_state_def outcome_state_def
  show "m_pProgress (step_state (setup_sensor env s)) = m_pProgress s"
    by (simp add: setup_sensor_def)
  show "m_pProgress (step_state (setup_scene xml_root s)) = m_pProgress s"
    by (simp add: setup_scene_def emit_def split: option.splits)
  show "m_pProgress (step_state (setup_size xml_root s)) = m_pProgress s"
    by (simp add: setup_size_def SetSensorSize_def split: option.splits)
  show "m_pProgress (step_state (setup_sampler env xml_root s)) = m_pProgress s"
    by (simp add: setup_sampler_def call_RoundSize_def emit_def split: option.splits)
  show "m_pProgress (step_state (setup_camera env xml_root s)) = m_pProgress s"
    by (simp add: setup_camera_def split: option.splits)
  show "m_pProgress (step_state (setup_output xml_root s)) = m_pProgress s"
    by (simp add: setup_output_def split: option.splits)
  show "m_pProgress (step_state (setup_threads xml_root s)) = m_pProgress s"
    by (simp add: setup_threads_def split: option.splits)
  show "m_pProgress (step_state (setup_camera_sensor s)) = m_pProgress s"
    by (simp add: setup_camera_sensor_def split: option.splits)
qed

lemma preserves_pProgress:
  "(\<And>s. m_pProgress (step_state (f s)) = m_pProgress s) \<Longrightarrow>
   preserves (\<lambda>s. m_pProgress s = v) f"
  by (simp add: preserves_def)

lemma pProgress_setup_config:
  "m_pProgress (step_state (setup_config env doc s0)) = m_pProgress s0"
proof (cases doc)
  case None
  then show ?thesis
    by (simp add: setup_config_def and_then_def setup_sensor_def step_state_def outcome_state_def)
next
  case (Some xml_root)
  have "preserves (\<lambda>s. m_pProgress s = m_pProgress s0)
          (\<lambda>s. and_then (setup_sensor env s) (\<lambda>s.
           and_then (setup_scene xml_root s) (\<lambda>s.
           and_then (setup_integrator xml_root s) (\<lambda>s.
           and_then (setup_size xml_root s) (\<lambda>s.
           and_then (setup_sampler env xml_root s) (\<lambda>s.
           and_then (setup_camera env xml_root s) (\<lambda>s.
           and_then (setup_output xml_root s) (\<lambda>s.
           and_then (setup_threads xml_root s) (\<lambda>s.
           setup_camera_sensor s)))))))))"
    apply (intro preserves_and_then)
            apply (rule preserves_pProgress, rule pProgress_steps)
           apply (rule preserves_pProgress, rule pProgress_steps)
          apply (rule preserves_pProgress, rule pProgress_setup_integrator)
         apply (rule preserves_pProgress, rule pProgress_steps)
        apply (rule preserves_pProgress, rule pProgress_steps)
       apply (rule preserves_pProgress, rule pProgress_steps)
      apply (rule preserves_pProgress, rule pProgress_steps)
     apply (rule preserves_pProgress, rule pProgress_steps)
    apply (rule preserves_pProgress, rule pProgress_steps)
    done
  then show ?thesis
    unfolding setup_config_def Some option.case preserves_def by blast
qed

lemma steps_shm:
  "setup_sensor (env\<lparr>shm_available := b\<rparr>) = setup_sensor env"
  "setup_sampler (env\<lparr>shm_available := b\<rparr>) = setup_sampler env"
  "setup_camera (env\<lparr>shm_available := b\<rparr>) = setup_camera env"
  by (simp_all add: fun_eq_iff setup_sensor_def setup_sampler_def setup_camera_def
      call_RoundSize_def split: option.splits)

lemma setup_config_shm:
  "setup_config (env\<lparr>shm_available := b\<rparr>) doc s0 = setup_config env doc s0"
  unfolding setup_config_def steps_shm ..

lemma setup_shared_memory_unavailable:
  assumes "setup_shared_memory env s1 = Inr s" and "m_pProgress s1 = None"
  shows "setup_shared_memory (env\<lparr>shm_available := False\<rparr>) s1
         = Inr (s\<lparr>shared_bytes := None, m_pProgress := None\<rparr>)"
  using assms
  by (auto simp: setup_shared_memory_def Let_def CreateSharedMemory_def
      split: option.splits if_splits)

text \<open>
  The example file with the default 1920 by 1080 sensor and tiles of 32, when the manager
  can allocate: 60 by 34 tiles, a region of 66848762 bytes, all cleared, and
  \<open>m_pProgress\<close> at its second-to-last byte.
\<close>

lemma memset_whole: "length bytes = nat n \<Longrightarrow> memset bytes v n = replicate (nat n) v"
  by (simp add: memset_def)

lemma setup_shared_memory_example:
  "setup_shared_memory (example_env b True) (example_setup_state b)
   = Inr ((example_setup_state b)
            \<lparr>shared_bytes := Some (replicate (nat 66848762) 0),
             m_pProgress := Some 66848760\<rparr>)"
proof -
  let ?env = "example_env b True"
  let ?img = "\<lparr>sensor_blender = b, sensor_width = 1920,
               sensor_height = 1080, sensor_filename = None\<rparr>"
  have img: "m_imagesensor (example_setup_state b) = Some ?img"
    by (simp add: example_setup_state_def)
  have env: "g_iTileSize ?env = 32" "shm_available ?env"
    by (simp_all add: example_env_def)
  have cx: "ceil_fdiv 1920 32 = Some 60" by code_simp
  have cy: "ceil_fdiv 1080 32 = Some 34" by code_simp
  have ss: "shm_size 60 34 32 = Some 66848762" by code_simp
  have cr: "CreateSharedMemory ?env 66848762
            = \<lparr>sm_bytes = Some (map (shm_fresh ?env) [0 ..< nat 66848762]), sm_size = 66848762\<rparr>"
    unfolding CreateSharedMemory_def using env(2) by simp
  have len: "length (map (shm_fresh ?env) [0 ..< nat 66848762]) = nat 66848762"
    by (simp only: length_map length_upt)
  show ?thesis
    unfolding setup_shared_memory_def img option.case image_sensor.simps env(1) cx cy ss cr
      Let_def shared_memory.simps memset_whole [OF len]
    by simp
qed

text \<open>
  Claim C7, as amended. Whenever \<open>Setup\<close> returns \<open>true\<close>, it also returns \<open>true\<close> when the
  shared memory cannot be allocated, in the same state but with no region and a null
  \<open>m_pProgress\<close>. A progress report with a null \<open>m_pProgress\<close> never touches the shared
  memory; when the task table is not empty, it prints the percentage when Blender mode
  is off, and only an end of line when Blender mode is on.
\<close>

theorem Setup_without_shared_memory:
  assumes "Setup env doc (preInit s0) = Done True s"
  shows "Setup (env\<lparr>shm_available := False\<rparr>) doc (preInit s0)
           = Done True (s\<lparr>shared_bytes := None, m_pProgress := None\<rparr>)
         \<and> (\<forall>s2. m_pProgress s2 = None \<longrightarrow>
                shared_bytes (outcome_state (outputProgress (env\<lparr>shm_available := False\<rparr>) s2))
                  = shared_bytes s2
                \<and> (m_totalTask s2 \<noteq> 0 \<longrightarrow>
                     (\<exists>p. progress_percent (count_done s2) (m_totalTask s2) = Some p
                        \<and> outputProgress (env\<lparr>shm_available := False\<rparr>) s2
                          = Done () (s2\<lparr>trace := trace s2 @
                               (if g_bBlenderMode env then [Cout_Endl]
                                else [Cout_Progress p, Cout_Endl])\<rparr>))))"
proof
  from Setup_true [OF assms] obtain s1 where
    s1: "setup_config env doc (preInit s0) = Inr s1" "setup_shared_memory env s1 = Inr s"
    by blast
  from pProgress_setup_config [of env doc "preInit s0"] s1(1)
  have "m_pProgress s1 = None" by (simp add: step_state_def preInit_def)
  from setup_shared_memory_unavailable [OF s1(2) this] s1(1)
  show "Setup (env\<lparr>shm_available := False\<rparr>) doc (preInit s0)
           = Done True (s\<lparr>shared_bytes := None, m_pProgress := None\<rparr>)"
    by (simp add: Setup_def setup_config_shm and_then_def)
next
  show "\<forall>s2. m_pProgress s2 = None \<longrightarrow>
                shared_bytes (outcome_state (outputProgress (env\<lparr>shm_available := False\<rparr>) s2))
                  = shared_bytes s2
                \<and> (m_totalTask s2 \<noteq> 0 \<longrightarrow>
                     (\<exists>p. progress_percent (count_done s2) (m_totalTask s2) = Some p
                        \<and> outputProgress (env\<lparr>shm_available := False\<rparr>) s2
                          = Done () (s2\<lparr>trace := trace s2 @
                               (if g_bBlenderMode env then [Cout_Endl]
                                else [Cout_Progress p, Cout_Endl])\<rparr>)))"
  proof (intro allI impI conjI)
    fix s2 :: system
    assume null: "m_pProgress s2 = None"
    then show "shared_bytes (outcome_state (outputProgress (env\<lparr>shm_available := False\<rparr>) s2))
                 = shared_bytes s2"
      by (rule outputProgress_null_bytes)
    assume "m_totalTask s2 \<noteq> 0"
    then obtain p where p: "progress_percent (count_done s2) (m_totalTask s2) = Some p"
      by (simp add: progress_percent_def)
    from outputProgress_null [OF null p, of "env\<lparr>shm_available := False\<rparr>"]
    have "outputProgress (env\<lparr>shm_available := False\<rparr>) s2
            = Done () (s2\<lparr>trace := trace s2 @
                  (if g_bBlenderMode env then [Cout_Endl] else [Cout_Progress p, Cout_Endl])\<rparr>)"
      by simp
    with p
    show "\<exists>p. progress_percent (count_done s2) (m_totalTask s2) = Some p
                   \<and> outputProgress (env\<lparr>shm_available := False\<rparr>) s2
                     = Done () (s2\<lparr>trace := trace s2 @
                          (if g_bBlenderMode env then [Cout_Endl]
                           else [Cout_Progress p, Cout_Endl])\<rparr>)"
      by (intro exI [of _ p] conjI)
  qed
qed

text \<open>
  Claim C7, the theorem at a concrete file: when the manager can allocate, \<open>Setup\<close>
  returns \<open>true\<close> with a cleared region of 66848762 bytes and \<open>m_pProgress\<close> set; when it
  cannot, \<open>Setup\<close> returns \<open>true\<close> in the same state with no region and a null
  \<open>m_pProgress\<close>, and the report of 1 task done out of 2 prints 50 and leaves the shared
  memory as it is.
\<close>

theorem Setup_without_shared_memory_witness:
  "shm_available (example_env False True)
   \<and> Setup (example_env False True) (Some (example_doc [example_camera])) (preInit new_system)
     = Done True ((example_setup_state False)
          \<lparr>shared_bytes := Some (replicate (nat 66848762) 0), m_pProgress := Some 66848760\<rparr>)
   \<and> Setup ((example_env False True)\<lparr>shm_available := False\<rparr>)
        (Some (example_doc [example_camera])) (preInit new_system)
     = Done True (example_setup_state False)
   \<and> shared_bytes (example_setup_state False) = None
   \<and> m_pProgress (example_setup_state False) = None
   \<and> outputProgress ((example_env False True)\<lparr>shm_available := False\<rparr>)
        ((example_setup_state False)\<lparr>m_totalTask := 2, m_taskDone := [True, False]\<rparr>)
      = Done () ((example_setup_state False)
           \<lparr>m_totalTask := 2, m_taskDone := [True, False],
            trace := [Load_Scene ''scene.xml'', Round_Size ''stratified'' 16,
                      Cout_Progress 50, Cout_Endl]\<rparr>)"
proof -
  let ?env = "example_env False True"
  let ?doc = "Some (example_doc [example_camera])"
  let ?s = "(example_setup_state False)
          \<lparr>shared_bytes := Some (replicate (nat 66848762) 0), m_pProgress := Some 66848760\<rparr>"
  let ?s2 = "(example_setup_state False)\<lparr>m_totalTask := 2, m_taskDone := [True, False]\<rparr>"
  have av: "shm_available ?env" by (simp add: example_env_def)
  have cfg: "setup_config ?env ?doc (preInit new_system) = Inr (example_setup_state False)"
    by code_simp
  have run: "Setup ?env ?doc (preInit new_system) = Done True ?s"
    unfolding Setup_def cfg and_then_def sum.case setup_shared_memory_example ..
  have none: "shared_bytes (example_setup_state False) = None"
    "m_pProgress (example_setup_state False) = None"
    by (simp_all add: example_setup_state_def new_system_def preInit_def)
  have same: "?s\<lparr>shared_bytes := None, m_pProgress := None\<rparr> = example_setup_state False"
    using none by simp
  have null: "m_pProgress ?s2 = None" using none by simp
  have n: "m_totalTask ?s2 \<noteq> 0" by simp
  have pp: "progress_percent (count_done ?s2) (m_totalTask ?s2) = Some 50" by code_simp
  have b: "\<not> g_bBlenderMode ?env" by (simp add: example_env_def)
  have tr: "trace ?s2 = [Load_Scene ''scene.xml'', Round_Size ''stratified'' 16]"
    by (simp add: example_setup_state_def)
  note main = Setup_without_shared_memory [OF run]
  from main have r: "Setup (?env\<lparr>shm_available := False\<rparr>) ?doc (preInit new_system)
                     = Done True (example_setup_state False)"
    unfolding same by blast
  from main null n obtain p where
    p: "progress_percent (count_done ?s2) (m_totalTask ?s2) = Some p"
    and out: "outputProgress (?env\<lparr>shm_available := False\<rparr>) ?s2
       = Done () (?s2\<lparr>trace := trace ?s2 @
            (if g_bBlenderMode ?env then [Cout_Endl] else [Cout_Progress p, Cout_Endl])\<rparr>)"
    by blast
  from p pp have "p = 50" by simp
  with out have "outputProgress (?env\<lparr>shm_available := False\<rparr>) ?s2
       = Done () (?s2\<lparr>trace := [Load_Scene ''scene.xml'', Round_Size ''stratified'' 16,
                      Cout_Progress 50, Cout_Endl]\<rparr>)"
    unfolding tr using b by simp
  with av run r none show ?thesis by blast
qed

text \<open>
  Claim C7 as stated fails in Blender mode: after a failed allocation \<open>Setup\<close> returns
  \<open>true\<close> with a null \<open>m_pProgress\<close>, and the progress report then prints no
  percentage at all, only the end of line.
\<close>

theorem Setup_without_shared_memory_counterexample:
  "Setup (example_env True False) (Some (example_doc [example_camera])) (preInit new_system)
     = Done True (example_setup_state True)
   \<and> m_pProgress (example_setup_state True) = None
   \<and> outputProgress (example_env True False)
        ((example_setup_state True)\<lparr>m_totalTask := 2, m_taskDone := [True, False]\<rparr>)
      = Done () ((example_setup_state True)
           \<lparr>m_totalTask := 2, m_taskDone := [True, False],
            trace := [Load_Scene ''scene.xml'', Round_Size ''stratified'' 16, Cout_Endl]\<rparr>)"
  by code_simp

lemma to_size_t_id: "0 \<le> v \<Longrightarrow> v < 2 ^ 31 \<Longrightarrow> to_size_t v = v"
  by (simp add: to_size_t_def)

lemma to_int32_id: "0 \<le> v \<Longrightarrow> v < 2 ^ 31 \<Longrightarrow> to_int32 v = v"
  by (simp add: to_int32_def)

lemma shm_size_exact:
  assumes "0 < x_tile" "0 < y_tile" "0 < T"
    and "x_tile * y_tile + x_tile * y_tile * T * T * 4 * 4 * 2 + 2 < 2 ^ 31"
  shows "shm_size x_tile y_tile T
         = Some (x_tile * y_tile + x_tile * y_tile * T * T * 4 * 4 * 2 + 2)"
proof -
  define a0 where "a0 = x_tile * y_tile"
  define a1 where "a1 = a0 * T"
  define a2 where "a2 = a1 * T"
  have a0: "0 < a0" using assms by (simp add: a0_def)
  have "a0 * 1 \<le> a0 * T" using a0 assms(3) by (intro mult_left_mono) simp_all
  then have a1: "a0 \<le> a1" by (simp add: a1_def)
  have "a1 * 1 \<le> a1 * T" using a0 a1 assms(3) by (intro mult_left_mono) simp_all
  then have a2: "a1 \<le> a2" by (simp add: a2_def)
  have tot: "a0 + a2 * 32 + 2 < 2 ^ 31"
    using assms(4) by (simp add: a0_def a1_def a2_def algebra_simps)
  have r: "in_int32 a0" "in_int32 a1" "in_int32 a2" "in_int32 (a2 * 4)"
    using a0 a1 a2 tot by (simp_all add: in_int32_def)
  have "shm_size x_tile y_tile T = Some (a2 * 32 + a0 + 2)"
    unfolding shm_size_def Let_def a0_def [symmetric] a1_def [symmetric] a2_def [symmetric]
    using r a0 a1 a2 tot by (simp add: to_size_t_id to_int32_id)
  then show ?thesis by (simp add: a0_def a1_def a2_def algebra_simps)
qed

lemma setup_shared_memory_sensor:
  "setup_shared_memory env s1 = Inr s \<Longrightarrow> m_imagesensor s1 = m_imagesensor s"
  by (auto simp: setup_shared_memory_def Let_def split: option.splits)

lemma tiles_positive:
  "0 < W \<Longrightarrow> 0 < T \<Longrightarrow> 0 < \<lceil>(of_int W / of_int T :: rat)\<rceil>"
  by simp

text \<open>
  As long as the size fits the \<open>int\<close> of line 409: when \<open>Setup\<close> returns \<open>true\<close> for a
  sensor of at most \<open>2 ^ 24\<close> by \<open>2 ^ 24\<close> pixels and a positive tile size \<open>T\<close>, the total
  of one header byte per tile, \<open>tiles * T * T * 4 * sizeof(float) * 2\<close> buffer bytes and 2
  trailing bytes is below \<open>2 ^ 31\<close>, and the manager can allocate, then the region has
  exactly that many bytes, all zero, and \<open>m_pProgress\<close> is its second-to-last byte.
\<close>

lemma Setup_region_exact:
  fixes T :: int
  assumes "Setup env doc s0 = Done True s"
    and "m_imagesensor s = Some img"
    and "0 < sensor_width img" "sensor_width img \<le> 2 ^ 24"
    and "0 < sensor_height img" "sensor_height img \<le> 2 ^ 24"
    and "T = g_iTileSize env" "0 < T"
    and "tiles = \<lceil>(of_int (sensor_width img) / of_int T :: rat)\<rceil>
                 * \<lceil>(of_int (sensor_height img) / of_int T :: rat)\<rceil>"
    and "tiles + tiles * T * T * 4 * 4 * 2 + 2 < 2 ^ 31"
    and "shm_available env"
  shows "shared_bytes s = Some (replicate (nat (tiles + tiles * T * T * 4 * 4 * 2 + 2)) 0)
         \<and> m_pProgress s = Some (tiles + tiles * T * T * 4 * 4 * 2 + 2 - 2)"
proof -
  define x_tile where "x_tile = \<lceil>(of_int (sensor_width img) / of_int T :: rat)\<rceil>"
  define y_tile where "y_tile = \<lceil>(of_int (sensor_height img) / of_int T :: rat)\<rceil>"
  define sz where "sz = x_tile * y_tile + x_tile * y_tile * T * T * 4 * 4 * 2 + 2"
  have xy: "0 < x_tile" "0 < y_tile"
    using assms(3,5,8) by (simp_all add: x_tile_def y_tile_def)
  have szb: "sz < 2 ^ 31" using assms(9,10) by (simp add: sz_def x_tile_def y_tile_def)
  have T24: "T \<le> 2 ^ 24"
  proof -
    define a0 where "a0 = x_tile * y_tile"
    define a1 where "a1 = a0 * T"
    define a2 where "a2 = a1 * T"
    have a0: "1 \<le> a0" using mult_pos_pos [OF xy] by (simp add: a0_def)
    have "1 * T \<le> a0 * T" using a0 assms(8) by (intro mult_right_mono) simp_all
    then have a1: "T \<le> a1" by (simp add: a1_def)
    have tot: "a0 + a2 * 32 + 2 < 2 ^ 31"
      using szb by (simp add: sz_def a0_def a1_def a2_def algebra_simps)
    show ?thesis
    proof (rule ccontr)
      assume "\<not> T \<le> 2 ^ 24"
      then have big: "2 ^ 24 < T" by simp
      then have "a1 * 4 \<le> a1 * T" using a1 by (intro mult_left_mono) simp_all
      then have "a1 * 4 \<le> a2" by (simp add: a2_def)
      with a0 a1 big tot show False by simp
    qed
  qed
  from Setup_true [OF assms(1)] obtain s1 where
    s1: "setup_shared_memory env s1 = Inr s" by blast
  from setup_shared_memory_sensor [OF s1] assms(2) have img: "m_imagesensor s1 = Some img"
    by simp
  have cx: "ceil_fdiv (sensor_width img) (g_iTileSize env) = Some x_tile"
    unfolding x_tile_def assms(7) [symmetric]
    using assms(3,4,8) T24 by (rule ceil_fdiv_exact)
  have cy: "ceil_fdiv (sensor_height img) (g_iTileSize env) = Some y_tile"
    unfolding y_tile_def assms(7) [symmetric]
    using assms(5,6,8) T24 by (rule ceil_fdiv_exact)
  have ss: "shm_size x_tile y_tile (g_iTileSize env) = Some sz"
    unfolding sz_def assms(7) [symmetric]
    using xy assms(8) szb [unfolded sz_def] by (rule shm_size_exact)
  have sz0: "0 < sz"
  proof -
    have "0 < x_tile * y_tile" using xy by (rule mult_pos_pos)
    moreover from this assms(8) have "0 < x_tile * y_tile * T" by (rule mult_pos_pos)
    from this assms(8) have "0 < x_tile * y_tile * T * T" by (rule mult_pos_pos)
    ultimately show ?thesis unfolding sz_def by linarith
  qed
  have cr: "CreateSharedMemory env sz
            = \<lparr>sm_bytes = Some (map (shm_fresh env) [0 ..< nat sz]), sm_size = sz\<rparr>"
    using assms(11) sz0 by (simp add: CreateSharedMemory_def)
  have "setup_shared_memory env s1
        = Inr (s1\<lparr>shared_bytes := Some (replicate (nat sz) 0), m_pProgress := Some (sz - 2)\<rparr>)"
    by (simp add: setup_shared_memory_def img cx cy ss cr Let_def memset_whole)
  with s1 have "shared_bytes s = Some (replicate (nat sz) 0) \<and> m_pProgress s = Some (sz - 2)"
    by auto
  then show ?thesis
    unfolding sz_def x_tile_def y_tile_def assms(9) [symmetric] .
qed

text \<open>
  Claim C5. The size of the region is computed in the \<open>int size\<close> of line 409, which
  cannot hold the stated total for a large image. For 8192 by 8192 pixels and tiles of
  32, the steps of \<open>Setup\<close> before the allocation succeed and leave that sensor; the
  tile counts are 256 and 256; the stated total is \<open>2147549186\<close>, but the value of \<open>size\<close>
  that line 414 hands to \<open>CreateSharedMemory\<close> is \<open>-2147418110\<close>. For the claim's own
  example, 1920 by 1080 pixels and tiles of 32, the tile counts are 60 and 34 and
  \<open>size\<close> is the stated total: 2040 header bytes, \<open>2040 * 32 * 32 * 4 * 4 * 2\<close> buffer
  bytes and 2 trailing bytes.
\<close>

theorem Setup_shared_memory_size_overflow:
  "setup_config (example_env True True) (Some large_doc) new_system
     = Inr ((example_setup_state True)
          \<lparr>m_imagesensor := Some \<lparr>sensor_blender = True, sensor_width = 8192,
                                   sensor_height = 8192, sensor_filename = None\<rparr>\<rparr>)
   \<and> g_iTileSize (example_env True True) = 32
   \<and> ceil_fdiv 8192 32 = Some 256
   \<and> shm_size 256 256 32 = Some (- 2147418110)
   \<and> (256 * 256 + 256 * 256 * 32 * 32 * 4 * 4 * 2 + 2 :: int) = 2147549186
   \<and> setup_config (example_env True True) (Some (example_doc [example_camera])) new_system
     = Inr (example_setup_state True)
   \<and> m_imagesensor (example_setup_state True)
     = Some \<lparr>sensor_blender = True, sensor_width = 1920,
              sensor_height = 1080, sensor_filename = None\<rparr>
   \<and> ceil_fdiv 1920 32 = Some 60 \<and> ceil_fdiv 1080 32 = Some 34
   \<and> shm_size 60 34 32 = Some (2040 + 2040 * 32 * 32 * 4 * 4 * 2 + 2)"
  by code_simp

section \<open>The claims about \<open>Render\<close>\<close>

text \<open>
  Claim C8. The events that \<open>Render\<close> adds to the trace split in two: first a part with
  no event of a worker thread (no creation, start or join), which holds every
  \<open>PushTask\<close>; then a part with no \<open>PushTask\<close>. So every task is pushed before the
  first worker is created, and none after.
\<close>

theorem Render_pushes_before_workers:
  assumes "Render env s0 = Some out"
  shows "\<exists>pre post. trace (outcome_state out) = trace s0 @ pre @ post
           \<and> (\<forall>e \<in> set pre. \<not> worker_event e) \<and> (\<forall>e \<in> set post. \<not> is_push e)"
proof -
  let ?s2 = "emit Timer_Start (PreProcess env s0)"
  have 2: "extends_by (\<lambda>e. \<not> worker_event e) (trace s0) (trace ?s2)"
    using PreProcess_trace [of s0 env]
    by (auto simp: extends_by_def emit_def worker_event_def list_all_iff)
  from assms obtain r where r: "pushRenderTask env ?s2 = Some r"
    by (auto simp: Render_def Let_def split: option.splits)
  from extends_by_trans [OF 2 pushRenderTask_trace [OF r]]
  obtain pre where pre: "trace (outcome_state r) = trace s0 @ pre"
    and pre_ok: "\<forall>e \<in> set pre. \<not> worker_event e"
    by (auto simp: extends_by_def list_all_iff)
  have "\<exists>post. trace (outcome_state out) = trace (outcome_state r) @ post
           \<and> (\<forall>e \<in> set post. \<not> is_push e)"
  proof (cases r)
    case (Crashed e s3)
    with assms r have "out = Crashed e s3" by (simp add: Render_def Let_def)
    with Crashed show ?thesis by (simp add: outcome_state_def)
  next
    case (Done u s3)
    from executeRenderingTasks_trace [of s3 env] obtain es where
      es: "trace (outcome_state (executeRenderingTasks env s3)) = trace s3 @ es"
      and es_ok: "\<forall>e \<in> set es. \<not> is_push e"
      by (auto simp: extends_by_def list_all_iff)
    show ?thesis
    proof (cases "executeRenderingTasks env s3")
      case c: (Crashed e s4)
      with assms r Done have "out = Crashed e s4" by (simp add: Render_def Let_def)
      with c es es_ok Done show ?thesis by (auto simp: outcome_state_def)
    next
      case d: (Done u' s4)
      with assms r Done
      have "out = Done () ((emit Timer_Stop s4)\<lparr>m_uRenderingTime := timer_elapsed env\<rparr>)"
        by (simp add: Render_def Let_def)
      with d es es_ok Done show ?thesis
        by (auto simp: outcome_state_def emit_def is_push_def)
    qed
  qed
  with pre pre_ok show ?thesis by auto
qed

text \<open>Claim C8, the theorem for a 100 by 50 sensor and two threads.\<close>

theorem Render_pushes_before_workers_witness:
  "\<exists>out. Render (example_env False False) with_camera = Some out
     \<and> Thread_Begin 1 \<in> set (trace (outcome_state out))
     \<and> (\<exists>pre post. trace (outcome_state out) = trace with_camera @ pre @ post
           \<and> (\<forall>e \<in> set pre. \<not> worker_event e) \<and> (\<forall>e \<in> set post. \<not> is_push e))"
proof -
  have "case Render (example_env False False) with_camera of
          None \<Rightarrow> False
        | Some out \<Rightarrow> Thread_Begin 1 \<in> set (trace (outcome_state out))
                       \<and> length (filter is_push (trace (outcome_state out))) = 8"
    by code_simp
  then obtain out where out: "Render (example_env False False) with_camera = Some out"
    and b: "Thread_Begin 1 \<in> set (trace (outcome_state out))"
    by (auto split: option.splits)
  from Render_pushes_before_workers [OF out] out b show ?thesis by blast
qed

text \<open>
  Claim C2 fails on the code. With a sensor of 64 by 64 attached and no camera,
  \<open>PreProcess\<close> logs its warning and returns, and \<open>Render\<close> goes on: it pushes the four
  tasks, creates, starts and joins the worker and reports the progress.
\<close>

theorem Render_without_camera:
  "m_camera camera_less = None
   \<and> Render (example_env False False) camera_less = Some (Done () rendered_without_camera)"
  by code_simp

section \<open>The spiral of \<open>_pushRenderTask\<close>\<close>

lemma spiral_start_phase: "spiral_start tn = state_of (fst tn div 2, snd tn div 2) (Up 0 0)"
  by (simp add: spiral_start_def)

lemma cur_pos_state_of:
  "cur_pos (state_of c ph) = (fst c + fst (offset ph), snd c + snd (offset ph))"
  by (cases ph) simp_all

lemma valid_next: "valid ph \<Longrightarrow> valid (next_phase ph)"
  by (cases ph) auto

lemma advance_state_of: "valid ph \<Longrightarrow> advance (state_of c ph) = state_of c (next_phase ph)"
  by (cases ph) (auto simp: advance_def turn_def dir_def Let_def)

lemma wf_spiral_order: "wf (spiral_order m)"
  by (simp add: spiral_order_def)

lemma cur_pos_cell: "cur_pos (state_of c ph) = cell c ph"
  by (simp add: cell_def cur_pos_state_of)

lemma ring_next:
  assumes "valid ph" and "ring ph \<le> reach tn"
    and "\<not> outside_both tn (cell (centre tn) ph)"
  shows "ring (next_phase ph) \<le> reach tn"
  using assms
  by (cases ph) (auto simp: reach_def centre_def cell_def outside_both_def split: if_splits)

lemma next_decreases:
  assumes "valid ph" and "ring (next_phase ph) \<le> m"
  shows "(next_phase ph, ph) \<in> spiral_order m"
  using assms by (cases ph) (auto simp: spiral_order_def)

lemma states_Suc:
  "map (\<lambda>i. state_of c ((next_phase ^^ i) ph)) [0 ..< Suc n]
   = state_of c ph # map (\<lambda>i. state_of c ((next_phase ^^ i) (next_phase ph))) [0 ..< n]"
  by (simp add: map_upt_Suc funpow_swap1 del: upt_Suc)

lemma spiral_loop_unroll:
  assumes "valid ph" and "ring ph \<le> reach tn"
    and "\<not> outside_both tn (cell (centre tn) ph)"
  shows "\<exists>n\<ge>1. spiral_loop W H T tn (state_of (centre tn) ph) tq
               = Some (push_all W H T tn
                         (map (\<lambda>i. state_of (centre tn) ((next_phase ^^ i) ph)) [0 ..< n]) tq)
             \<and> outside_both tn (cell (centre tn) ((next_phase ^^ n) ph))
             \<and> (\<forall>j. 1 \<le> j \<and> j < n \<longrightarrow>
                    \<not> outside_both tn (cell (centre tn) ((next_phase ^^ j) ph)))"
  using assms
proof (induction ph arbitrary: tq rule: wf_induct_rule [OF wf_spiral_order [of "reach tn"]])
  case (1 ph)
  let ?c = "centre tn"
  let ?tq = "push_tile W H T tn (state_of ?c ph) tq"
  have adv: "advance (state_of ?c ph) = state_of ?c (next_phase ph)"
    using "1.prems"(1) by (rule advance_state_of)
  have unfold: "spiral_loop W H T tn (state_of ?c ph) tq
        = (if outside_both tn (cell ?c (next_phase ph)) then Some ?tq
           else spiral_loop W H T tn (state_of ?c (next_phase ph)) ?tq)"
    by (subst spiral_loop.simps) (simp add: Let_def adv cur_pos_cell)
  show ?case
  proof (cases "outside_both tn (cell ?c (next_phase ph))")
    case True
    have "spiral_loop W H T tn (state_of ?c ph) tq
          = Some (push_all W H T tn
                    (map (\<lambda>i. state_of ?c ((next_phase ^^ i) ph)) [0 ..< 1]) tq)"
      using True unfold by (simp add: push_all_def)
    moreover have "outside_both tn (cell ?c ((next_phase ^^ 1) ph))" using True by simp
    ultimately show ?thesis by (intro exI [of _ 1]) simp
  next
    case False
    have v: "valid (next_phase ph)" using "1.prems"(1) by (rule valid_next)
    have r: "ring (next_phase ph) \<le> reach tn" using "1.prems" by (rule ring_next)
    have d: "(next_phase ph, ph) \<in> spiral_order (reach tn)"
      using "1.prems"(1) r by (rule next_decreases)
    from "1.IH" [OF d v r False, of ?tq] obtain n where n: "1 \<le> n"
      and run: "spiral_loop W H T tn (state_of ?c (next_phase ph)) ?tq
               = Some (push_all W H T tn
                    (map (\<lambda>i. state_of ?c ((next_phase ^^ i) (next_phase ph))) [0 ..< n]) ?tq)"
      and out: "outside_both tn (cell ?c ((next_phase ^^ n) (next_phase ph)))"
      and before: "\<forall>j. 1 \<le> j \<and> j < n \<longrightarrow>
                    \<not> outside_both tn (cell ?c ((next_phase ^^ j) (next_phase ph)))"
      by blast
    have 1: "spiral_loop W H T tn (state_of ?c ph) tq
          = Some (push_all W H T tn
                    (map (\<lambda>i. state_of ?c ((next_phase ^^ i) ph)) [0 ..< Suc n]) tq)"
      unfolding states_Suc using False unfold run by (simp add: push_all_def)
    have 2: "outside_both tn (cell ?c ((next_phase ^^ Suc n) ph))"
      using out by (simp add: funpow_swap1)
    have 3: "\<not> outside_both tn (cell ?c ((next_phase ^^ j) ph))" if "1 \<le> j" "j < Suc n" for j
    proof (cases "j = 1")
      case True
      with False show ?thesis by simp
    next
      case False
      with that obtain i where j: "j = Suc i" "1 \<le> i" "i < n" by (cases j) auto
      with before show ?thesis by (simp add: funpow_swap1)
    qed
    from 1 2 3 show ?thesis by (intro exI [of _ "Suc n"]) simp
  qed
qed

lemma spec_moves_Suc:
  "spec_moves (Suc r) = spec_moves r @ replicate (r div 2 + 1) (spec_dir r)"
  by (simp add: spec_moves_def)

lemma length_spec_moves_Suc:
  "length (spec_moves (Suc r)) = length (spec_moves r) + r div 2 + 1"
  by (simp add: spec_moves_Suc)

lemma length_spec_moves_ge: "r \<le> length (spec_moves r)"
  by (induction r) (simp_all add: spec_moves_def)

lemma spec_moves_prefix: "\<exists>ys. spec_moves (r + d) = spec_moves r @ ys"
  by (induction d) (auto simp: spec_moves_Suc)

lemma spec_moves_nth_stable:
  assumes "j < length (spec_moves r)" and "r \<le> r'"
  shows "spec_moves r' ! j = spec_moves r ! j"
proof -
  from assms(2) obtain d where "r' = r + d" using le_Suc_ex by blast
  with spec_moves_prefix [of r d] obtain ys where "spec_moves r' = spec_moves r @ ys" by auto
  with assms(1) show ?thesis by (simp add: nth_append)
qed

lemma spec_moves_nth_run:
  "l < r div 2 + 1 \<Longrightarrow> spec_moves (Suc r) ! (length (spec_moves r) + l) = spec_dir r"
  unfolding spec_moves_Suc nth_append_length_plus by (rule nth_replicate)

lemma spec_cell_0: "spec_cell c 0 = c"
  by (simp add: spec_cell_def)

lemma spec_cell_Suc: "spec_cell c (Suc j) = step_to (spec_cell c j) (spec_moves (Suc j) ! j)"
proof -
  have len: "j < length (spec_moves (Suc j))"
    using length_spec_moves_ge [of "Suc j"] by simp
  have "take j (spec_moves (Suc j)) = take j (spec_moves j)"
    using length_spec_moves_ge [of j] by (simp add: spec_moves_Suc)
  then have "take (Suc j) (spec_moves (Suc j)) = take j (spec_moves j) @ [spec_moves (Suc j) ! j]"
    using len by (simp add: take_Suc_conv_app_nth)
  then show ?thesis by (simp add: spec_cell_def)
qed

lemma nat4:
  assumes "0 \<le> k"
  shows "nat (4 * k) mod 4 = 0" "nat (4 * k + 1) mod 4 = 1" "nat (4 * k + 2) mod 4 = 2"
    "nat (4 * k + 3) mod 4 = 3"
    "Suc (nat (4 * k) div 2) = nat (2 * k + 1)" "Suc (nat (4 * k + 1) div 2) = nat (2 * k + 1)"
    "Suc (nat (4 * k + 2) div 2) = nat (2 * k + 2)" "Suc (nat (4 * k + 3) div 2) = nat (2 * k + 2)"
    "nat (4 * k + 1) = Suc (nat (4 * k))" "nat (4 * k + 2) = Suc (nat (4 * k + 1))"
    "nat (4 * k + 3) = Suc (nat (4 * k + 2))" "nat (4 * (k + 1)) = Suc (nat (4 * k + 3))"
proof -
  from assms obtain m where k: "k = int m" using nonneg_int_cases by blast
  have e: "nat (4 * k) = 4 * m" "nat (4 * k + 1) = 4 * m + 1" "nat (4 * k + 2) = 4 * m + 2"
    "nat (4 * k + 3) = 4 * m + 3" "nat (4 * (k + 1)) = 4 * m + 4"
    "nat (2 * k + 1) = 2 * m + 1" "nat (2 * k + 2) = 2 * m + 2"
    unfolding k by (simp_all add: nat_add_distrib nat_mult_distrib)
  show "nat (4 * k) mod 4 = 0" "nat (4 * k + 1) mod 4 = 1" "nat (4 * k + 2) mod 4 = 2"
    "nat (4 * k + 3) mod 4 = 3"
    "Suc (nat (4 * k) div 2) = nat (2 * k + 1)" "Suc (nat (4 * k + 1) div 2) = nat (2 * k + 1)"
    "Suc (nat (4 * k + 2) div 2) = nat (2 * k + 2)" "Suc (nat (4 * k + 3) div 2) = nat (2 * k + 2)"
    "nat (4 * k + 1) = Suc (nat (4 * k))" "nat (4 * k + 2) = Suc (nat (4 * k + 1))"
    "nat (4 * k + 3) = Suc (nat (4 * k + 2))" "nat (4 * (k + 1)) = Suc (nat (4 * k + 3))"
    unfolding e by presburger+
qed

lemma idx_next: "valid ph \<Longrightarrow> idx (next_phase ph) = Suc (idx ph)"
proof (cases ph)
  case (Up k l)
  assume "valid ph"
  with Up have v: "0 \<le> k" "0 \<le> l" "l \<le> 2 * k + 1" by simp_all
  show ?thesis
  proof (cases "l < 2 * k + 1")
    case True
    with v show ?thesis by (simp add: Up idx_def nat_add_distrib)
  next
    case False
    with v have "l = 2 * k + 1" by simp
    with v show ?thesis
      by (simp add: Up idx_def nat4 [OF v(1)] length_spec_moves_Suc)
  qed
next
  case (Left k l)
  assume "valid ph"
  with Left have v: "0 \<le> k" "1 \<le> l" "l \<le> 2 * k + 1" by simp_all
  show ?thesis
  proof (cases "l < 2 * k + 1")
    case True
    with v show ?thesis by (simp add: Left idx_def nat_add_distrib)
  next
    case False
    with v have "l = 2 * k + 1" by simp
    with v show ?thesis
      by (simp add: Left idx_def nat4 [OF v(1)] length_spec_moves_Suc)
  qed
next
  case (Down k l)
  assume "valid ph"
  with Down have v: "0 \<le> k" "1 \<le> l" "l \<le> 2 * k + 2" by simp_all
  show ?thesis
  proof (cases "l < 2 * k + 2")
    case True
    with v show ?thesis by (simp add: Down idx_def nat_add_distrib)
  next
    case False
    with v have "l = 2 * k + 2" by simp
    with v show ?thesis
      by (simp add: Down idx_def nat4 [OF v(1)] length_spec_moves_Suc)
  qed
next
  case (Right k l)
  assume "valid ph"
  with Right have v: "0 \<le> k" "1 \<le> l" "l \<le> 2 * k + 2" by simp_all
  show ?thesis
  proof (cases "l < 2 * k + 2")
    case True
    with v show ?thesis by (simp add: Right idx_def nat_add_distrib)
  next
    case False
    with v have l: "l = 2 * k + 2" by simp
    have "idx (next_phase ph) = length (spec_moves (nat (4 * (k + 1)))) + nat 1"
      unfolding Right l by (simp only: next_phase.simps idx_def run.simps done_in_run.simps
          less_irrefl if_False)
    also have "\<dots> = length (spec_moves (nat (4 * k + 3))) + Suc (nat (4 * k + 3) div 2) + 1"
      unfolding nat4(12) [OF v(1)] length_spec_moves_Suc by simp
    also have "\<dots> = Suc (idx ph)"
      unfolding nat4(8) [OF v(1)] Right l by (simp add: idx_def)
    finally show ?thesis .
  qed
qed

lemma move_in_run:
  assumes "l < Suc (r div 2)"
  shows "spec_moves (Suc (length (spec_moves r) + l)) ! (length (spec_moves r) + l) = spec_dir r"
proof -
  have 1: "spec_moves (Suc r) ! (length (spec_moves r) + l) = spec_dir r"
    using assms by (intro spec_moves_nth_run) simp
  have 2: "length (spec_moves r) + l < length (spec_moves (Suc r))"
    using assms by (simp add: length_spec_moves_Suc)
  have 3: "Suc r \<le> Suc (length (spec_moves r) + l)"
    using length_spec_moves_ge [of r] by simp
  from spec_moves_nth_stable [OF 2 3] 1 show ?thesis by simp
qed

lemma move_run_end:
  "spec_moves (Suc (length (spec_moves r) + Suc (r div 2))) ! (length (spec_moves r) + Suc (r div 2))
   = spec_dir (Suc r)"
proof -
  have "length (spec_moves (Suc r)) + 0 = length (spec_moves r) + Suc (r div 2)"
    by (simp add: length_spec_moves_Suc)
  with move_in_run [of 0 "Suc r"] show ?thesis by simp
qed

lemma spec_dir_vals:
  assumes "0 \<le> k"
  shows "spec_dir (nat (4 * k)) = (0, - 1)" "spec_dir (Suc (nat (4 * k))) = (- 1, 0)"
    "spec_dir (nat (4 * k + 1)) = (- 1, 0)" "spec_dir (Suc (nat (4 * k + 1))) = (0, 1)"
    "spec_dir (nat (4 * k + 2)) = (0, 1)" "spec_dir (Suc (nat (4 * k + 2))) = (1, 0)"
    "spec_dir (nat (4 * k + 3)) = (1, 0)" "spec_dir (Suc (nat (4 * k + 3))) = (0, - 1)"
proof -
  show "spec_dir (nat (4 * k)) = (0, - 1)" "spec_dir (nat (4 * k + 1)) = (- 1, 0)"
    "spec_dir (nat (4 * k + 2)) = (0, 1)" "spec_dir (nat (4 * k + 3)) = (1, 0)"
    unfolding spec_dir_def nat4(1-4) [OF assms] by simp_all
  then show "spec_dir (Suc (nat (4 * k))) = (- 1, 0)" "spec_dir (Suc (nat (4 * k + 1))) = (0, 1)"
    "spec_dir (Suc (nat (4 * k + 2))) = (1, 0)"
    unfolding nat4(9-11) [OF assms, symmetric] by simp_all
  have "0 \<le> k + 1" using assms by simp
  from nat4(1) [OF this] show "spec_dir (Suc (nat (4 * k + 3))) = (0, - 1)"
    unfolding nat4(12) [OF assms, symmetric] spec_dir_def by simp
qed

lemma spec_move:
  assumes "valid ph"
  shows "spec_moves (Suc (idx ph)) ! idx ph
         = (fst (offset (next_phase ph)) - fst (offset ph),
            snd (offset (next_phase ph)) - snd (offset ph))"
proof (cases ph)
  case (Up k l)
  with assms have v: "0 \<le> k" "0 \<le> l" "l \<le> 2 * k + 1" by simp_all
  show ?thesis
  proof (cases "l < 2 * k + 1")
    case True
    then have "nat l < Suc (nat (4 * k) div 2)" unfolding nat4(5) [OF v(1)] using v by simp
    from move_in_run [OF this] True show ?thesis
      unfolding Up idx_def by (simp add: spec_dir_vals [OF v(1)])
  next
    case False
    with v have l: "nat l = Suc (nat (4 * k) div 2)" unfolding nat4(5) [OF v(1)] by simp
    from move_run_end [of "nat (4 * k)"] False show ?thesis
      unfolding Up idx_def run.simps done_in_run.simps l
      using v by (simp add: spec_dir_vals [OF v(1)])
  qed
next
  case (Left k l)
  with assms have v: "0 \<le> k" "1 \<le> l" "l \<le> 2 * k + 1" by simp_all
  show ?thesis
  proof (cases "l < 2 * k + 1")
    case True
    then have "nat l < Suc (nat (4 * k + 1) div 2)" unfolding nat4(6) [OF v(1)] using v by simp
    from move_in_run [OF this] True show ?thesis
      unfolding Left idx_def by (simp add: spec_dir_vals [OF v(1)])
  next
    case False
    with v have l: "nat l = Suc (nat (4 * k + 1) div 2)" unfolding nat4(6) [OF v(1)] by simp
    from move_run_end [of "nat (4 * k + 1)"] False show ?thesis
      unfolding Left idx_def run.simps done_in_run.simps l
      using v by (simp add: spec_dir_vals [OF v(1)])
  qed
next
  case (Down k l)
  with assms have v: "0 \<le> k" "1 \<le> l" "l \<le> 2 * k + 2" by simp_all
  show ?thesis
  proof (cases "l < 2 * k + 2")
    case True
    then have "nat l < Suc (nat (4 * k + 2) div 2)" unfolding nat4(7) [OF v(1)] using v by simp
    from move_in_run [OF this] True show ?thesis
      unfolding Down idx_def by (simp add: spec_dir_vals [OF v(1)])
  next
    case False
    with v have l: "nat l = Suc (nat (4 * k + 2) div 2)" unfolding nat4(7) [OF v(1)] by simp
    from move_run_end [of "nat (4 * k + 2)"] False show ?thesis
      unfolding Down idx_def run.simps done_in_run.simps l
      using v by (simp add: spec_dir_vals [OF v(1)])
  qed
next
  case (Right k l)
  with assms have v: "0 \<le> k" "1 \<le> l" "l \<le> 2 * k + 2" by simp_all
  show ?thesis
  proof (cases "l < 2 * k + 2")
    case True
    then have "nat l < Suc (nat (4 * k + 3) div 2)" unfolding nat4(8) [OF v(1)] using v by simp
    from move_in_run [OF this] True show ?thesis
      unfolding Right idx_def by (simp add: spec_dir_vals [OF v(1)])
  next
    case False
    with v have l: "nat l = Suc (nat (4 * k + 3) div 2)" unfolding nat4(8) [OF v(1)] by simp
    from move_run_end [of "nat (4 * k + 3)"] False show ?thesis
      unfolding Right idx_def run.simps done_in_run.simps l
      using v by (simp add: spec_dir_vals [OF v(1)])
  qed
qed

lemma phase_at:
  "valid ((next_phase ^^ j) (Up 0 0)) \<and> idx ((next_phase ^^ j) (Up 0 0)) = j
   \<and> spec_cell c j = cell c ((next_phase ^^ j) (Up 0 0))"
proof (induction j)
  case 0
  show ?case by (simp add: idx_def spec_moves_def spec_cell_0 cell_def)
next
  case (Suc j)
  let ?ph = "(next_phase ^^ j) (Up 0 0)"
  from Suc have v: "valid ?ph" and i: "idx ?ph = j" and c: "spec_cell c j = cell c ?ph"
    by simp_all
  have 1: "valid (next_phase ?ph)" using v by (rule valid_next)
  have 2: "idx (next_phase ?ph) = Suc j" using idx_next [OF v] i by simp
  have "spec_cell c (Suc j) = step_to (cell c ?ph) (spec_moves (Suc (idx ?ph)) ! idx ?ph)"
    unfolding i spec_cell_Suc c ..
  also have "\<dots> = cell c (next_phase ?ph)"
    unfolding spec_move [OF v] by (simp add: step_to_def cell_def)
  finally have 3: "spec_cell c (Suc j) = cell c (next_phase ?ph)" .
  from 1 2 3 show ?case by simp
qed

lemma push_all_snoc:
  "push_all W H T tn (sts @ [st]) tq = push_tile W H T tn st (push_all W H T tn sts tq)"
  by (simp add: push_all_def)

lemma push_all_cells:
  "push_all W H T tn sts (0, []) = spec_emit W H T tn (map cur_pos sts)"
proof (induction sts rule: rev_induct)
  case Nil
  show ?case by (simp add: push_all_def spec_emit_def)
next
  case (snoc st sts)
  let ?cs = "filter (inside tn) (map cur_pos sts)"
  show ?case
    unfolding push_all_snoc snoc.IH
    by (simp add: push_tile_def spec_emit_def Let_def enumerate_append_eq mod_add_left_eq mod_add_right_eq)
qed

lemma reach_nonneg: "0 \<le> reach tn"
  by (simp add: reach_def)

lemma states_cells:
  "map cur_pos (map (\<lambda>i. state_of c ((next_phase ^^ i) (Up 0 0))) [0 ..< n])
   = map (spec_cell c) [0 ..< n]"
  by (simp add: cur_pos_cell phase_at)

lemma start_outside:
  assumes "outside_both tn (fst tn div 2, snd tn div 2)"
  shows "outside_both tn (fst tn div 2, snd tn div 2 - 1)"
    and "\<not> inside tn (fst tn div 2, snd tn div 2)"
  using assms by (auto simp: outside_both_def inside_def)

lemma spiral_loop_spec:
  "\<exists>n\<ge>1. outside_both tn (spec_cell (fst tn div 2, snd tn div 2) n)
         \<and> (\<forall>j. 1 \<le> j \<and> j < n \<longrightarrow>
                \<not> outside_both tn (spec_cell (fst tn div 2, snd tn div 2) j))
         \<and> spiral_loop W H T tn (spiral_start tn) (0, [])
           = Some (spec_emit W H T tn (map (spec_cell (fst tn div 2, snd tn div 2)) [0 ..< n]))"
proof (cases "outside_both tn (fst tn div 2, snd tn div 2)")
  case False
  let ?c = "centre tn"
  have c: "?c = (fst tn div 2, snd tn div 2)" by (simp add: centre_def)
  have st: "spiral_start tn = state_of ?c (Up 0 0)"
    unfolding c by (rule spiral_start_phase)
  have v: "valid (Up 0 0)" by simp
  have r: "ring (Up 0 0) \<le> reach tn" using reach_nonneg by simp
  have o: "\<not> outside_both tn (cell ?c (Up 0 0))" using False by (simp add: cell_def c)
  from spiral_loop_unroll [OF v r o, of W H T "(0, [])"] obtain n where n: "1 \<le> n"
    and run: "spiral_loop W H T tn (state_of ?c (Up 0 0)) (0, [])
              = Some (push_all W H T tn
                        (map (\<lambda>i. state_of ?c ((next_phase ^^ i) (Up 0 0))) [0 ..< n]) (0, []))"
    and out: "outside_both tn (cell ?c ((next_phase ^^ n) (Up 0 0)))"
    and before: "\<forall>j. 1 \<le> j \<and> j < n \<longrightarrow>
                   \<not> outside_both tn (cell ?c ((next_phase ^^ j) (Up 0 0)))"
    by blast
  have cellj: "cell ?c ((next_phase ^^ j) (Up 0 0)) = spec_cell ?c j" for j
    using phase_at [of j ?c] by simp
  have 1: "outside_both tn (spec_cell ?c n)" using out unfolding cellj .
  have 2: "\<forall>j. 1 \<le> j \<and> j < n \<longrightarrow> \<not> outside_both tn (spec_cell ?c j)"
    using before unfolding cellj .
  have 3: "spiral_loop W H T tn (spiral_start tn) (0, [])
           = Some (spec_emit W H T tn (map (spec_cell ?c) [0 ..< n]))"
    unfolding st run push_all_cells states_cells ..
  from n 1 2 3 show ?thesis unfolding c by blast
next
  case True
  let ?c = "(fst tn div 2, snd tn div 2)"
  define s0 where "s0 = spiral_start tn"
  have adv: "cur_pos (advance s0) = (fst tn div 2, snd tn div 2 - 1)"
    using advance_state_of [of "Up 0 0" ?c] by (simp add: s0_def spiral_start_phase)
  have c1: "spec_cell ?c 1 = (fst tn div 2, snd tn div 2 - 1)"
    using phase_at [of 1 ?c] by (simp add: cell_def)
  have 1: "outside_both tn (spec_cell ?c 1)"
    unfolding c1 using True by (rule start_outside)
  have p: "push_tile W H T tn s0 (0, []) = (0, [])"
    using start_outside(2) [OF True] by (simp add: push_tile_def s0_def spiral_start_def)
  have "spiral_loop W H T tn s0 (0, []) = Some (0, [])"
    by (subst spiral_loop.simps) (simp add: Let_def adv p start_outside(1) [OF True])
  then have "spiral_loop W H T tn (spiral_start tn) (0, []) = Some (0, [])"
    unfolding s0_def .
  moreover have "spec_emit W H T tn (map (spec_cell ?c) [0 ..< 1]) = (0, [])"
    using start_outside(2) [OF True] by (simp add: spec_emit_def spec_cell_0)
  ultimately have 3: "spiral_loop W H T tn (spiral_start tn) (0, [])
           = Some (spec_emit W H T tn (map (spec_cell ?c) [0 ..< 1]))" by simp
  have 2: "\<forall>j. 1 \<le> j \<and> j < (1::nat) \<longrightarrow> \<not> outside_both tn (spec_cell ?c j)" by simp
  from 1 2 3 show ?thesis by (intro exI [of _ 1]) simp
qed

section \<open>The claims about \<open>_pushRenderTask\<close>\<close>

text \<open>
  Claim C1 fails on the code for a very wide image. The number of tiles per row is
  computed in \<open>float\<close> (line 190), and the width \<open>16777217 = 2 ^ 24 + 1\<close> is not a
  \<open>float\<close>: it is rounded to \<open>2 ^ 24\<close>. For a sensor of 16777217 by 1 pixels and tiles of
  8388608 the counting loops of lines 179 to 182 give \<open>m_totalTask = 3\<close>, which is
  \<open>ceil(W / T) * ceil(H / T)\<close>, but the grid of the spiral is 2 by 1: only two tasks
  are pushed, and the pixel \<open>(16777216, 0)\<close> of the image is in neither.
\<close>

theorem pushRenderTask_wide_image:
  "pushRenderTask wide_env wide_image
     = Some (Done ()
         (wide_image
            \<lparr>m_totalTask := 3, m_taskDone := [False, False, False],
             task_queue :=
               [\<lparr>taskId = 0, ori_x = 8388608, ori_y = 0, size_x = 8388608, size_y = 1\<rparr>,
                \<lparr>taskId = 1, ori_x = 0, ori_y = 0, size_x = 8388608, size_y = 1\<rparr>],
             trace :=
               [Push_Task \<lparr>taskId = 0, ori_x = 8388608, ori_y = 0, size_x = 8388608, size_y = 1\<rparr>,
                Push_Task \<lparr>taskId = 1, ori_x = 0, ori_y = 0, size_x = 8388608, size_y = 1\<rparr>]\<rparr>))
   \<and> ceil_fdiv 16777217 8388608 = Some 2
   \<and> \<lceil>(16777217 / 8388608 :: rat)\<rceil> * \<lceil>(1 / 8388608 :: rat)\<rceil> = 3
   \<and> \<not> covers \<lparr>taskId = 0, ori_x = 8388608, ori_y = 0, size_x = 8388608, size_y = 1\<rparr>
          (16777216, 0)
   \<and> \<not> covers \<lparr>taskId = 1, ori_x = 0, ori_y = 0, size_x = 8388608, size_y = 1\<rparr>
          (16777216, 0)"
  by code_simp

text \<open>
  Claim C4. The loop of lines 202 to 231, started by lines 193 to 197 for a grid of
  \<open>tile_num\<close> cells, visits the cells of the spiral of the specification in their order:
  from the cell \<open>(tile_num.x / 2, tile_num.y / 2)\<close>, runs up, left, down, right of lengths
  1, 1, 2, 2, 3, 3 and so on. It stops at the first cell after the start that is out of
  range on both axes, the cell number \<open>n\<close>, and at no cell before. What it has pushed then
  is one task for each of the cells \<open>0\<close> to \<open>n - 1\<close> that lies inside the grid, in the
  order of the visit and numbered from 0; the cells outside the grid are skipped and do
  not stop the loop. The start is inside the grid whenever the grid has a cell.
\<close>

theorem pushRenderTask_spiral:
  "\<exists>n\<ge>1. outside_both tn (spec_cell (fst tn div 2, snd tn div 2) n)
         \<and> (\<forall>j. 1 \<le> j \<and> j < n \<longrightarrow>
                \<not> outside_both tn (spec_cell (fst tn div 2, snd tn div 2) j))
         \<and> (0 < fst tn \<and> 0 < snd tn \<longrightarrow> inside tn (spec_cell (fst tn div 2, snd tn div 2) 0))
         \<and> spiral_loop W H T tn (spiral_start tn) (0, [])
           = Some (spec_emit W H T tn (map (spec_cell (fst tn div 2, snd tn div 2)) [0 ..< n]))"
proof -
  have "0 < fst tn \<and> 0 < snd tn \<longrightarrow> inside tn (spec_cell (fst tn div 2, snd tn div 2) 0)"
    by (auto simp: spec_cell_0 inside_def)
  with spiral_loop_spec [of tn W H T] show ?thesis by blast
qed

text \<open>
  Claim C4, the theorem for \<open>W = 64\<close>, \<open>H = 64\<close>, \<open>T = 32\<close>: a grid of 2 by 2 cells. The
  spiral starts at the cell \<open>(1, 1)\<close> and stops at its seventh cell \<open>(2, 2)\<close>; the cells
  \<open>(0, 2)\<close> and \<open>(1, 2)\<close> are skipped; four tasks are pushed, with four different
  origins and \<open>4 * 32 * 32 = 4096\<close> pixels.
\<close>

theorem pushRenderTask_spiral_witness:
  "spiral_loop 64 64 32 (2, 2) (spiral_start (2, 2)) (0, [])
     = Some (spec_emit 64 64 32 (2, 2) (map (spec_cell (1, 1)) [0 ..< 6]))
   \<and> map (spec_cell (1, 1)) [0 ..< 7] = [(1, 1), (1, 0), (0, 0), (0, 1), (0, 2), (1, 2), (2, 2)]
   \<and> map (outside_both (2, 2)) [(1, 1), (1, 0), (0, 0), (0, 1), (0, 2), (1, 2), (2, 2)]
       = [False, False, False, False, False, False, True]
   \<and> spec_emit 64 64 32 (2, 2) (map (spec_cell (1, 1)) [0 ..< 6])
       = (4, [\<lparr>taskId = 0, ori_x = 32, ori_y = 32, size_x = 32, size_y = 32\<rparr>,
              \<lparr>taskId = 1, ori_x = 32, ori_y = 0, size_x = 32, size_y = 32\<rparr>,
              \<lparr>taskId = 2, ori_x = 0, ori_y = 0, size_x = 32, size_y = 32\<rparr>,
              \<lparr>taskId = 3, ori_x = 0, ori_y = 32, size_x = 32, size_y = 32\<rparr>])
   \<and> tile_tasks 64 64 32
       = Some (Inr (4, [\<lparr>taskId = 0, ori_x = 32, ori_y = 32, size_x = 32, size_y = 32\<rparr>,
              \<lparr>taskId = 1, ori_x = 32, ori_y = 0, size_x = 32, size_y = 32\<rparr>,
              \<lparr>taskId = 2, ori_x = 0, ori_y = 0, size_x = 32, size_y = 32\<rparr>,
              \<lparr>taskId = 3, ori_x = 0, ori_y = 32, size_x = 32, size_y = 32\<rparr>]))
   \<and> (32 * 32 + 32 * 32 + 32 * 32 + 32 * 32 :: int) = 4096"
proof -
  let ?c = "(1, 1) :: int \<times> int"
  have cells: "map (spec_cell ?c) [0 ..< 7]
               = [(1, 1), (1, 0), (0, 0), (0, 1), (0, 2), (1, 2), (2, 2)]"
    by code_simp
  have o: "\<not> outside_both (2, 2) (spec_cell ?c 1)" "\<not> outside_both (2, 2) (spec_cell ?c 2)"
    "\<not> outside_both (2, 2) (spec_cell ?c 3)" "\<not> outside_both (2, 2) (spec_cell ?c 4)"
    "\<not> outside_both (2, 2) (spec_cell ?c 5)" "outside_both (2, 2) (spec_cell ?c 6)"
    by code_simp+
  have ob: "map (outside_both (2, 2)) [(1, 1), (1, 0), (0, 0), (0, 1), (0, 2), (1, 2), (2, 2)]
       = [False, False, False, False, False, False, True]"
    by code_simp
  have em: "spec_emit 64 64 32 (2, 2) (map (spec_cell ?c) [0 ..< 6])
       = (4, [\<lparr>taskId = 0, ori_x = 32, ori_y = 32, size_x = 32, size_y = 32\<rparr>,
              \<lparr>taskId = 1, ori_x = 32, ori_y = 0, size_x = 32, size_y = 32\<rparr>,
              \<lparr>taskId = 2, ori_x = 0, ori_y = 0, size_x = 32, size_y = 32\<rparr>,
              \<lparr>taskId = 3, ori_x = 0, ori_y = 32, size_x = 32, size_y = 32\<rparr>])"
    by code_simp
  have tt: "tile_tasks 64 64 32
       = Some (Inr (4, [\<lparr>taskId = 0, ori_x = 32, ori_y = 32, size_x = 32, size_y = 32\<rparr>,
              \<lparr>taskId = 1, ori_x = 32, ori_y = 0, size_x = 32, size_y = 32\<rparr>,
              \<lparr>taskId = 2, ori_x = 0, ori_y = 0, size_x = 32, size_y = 32\<rparr>,
              \<lparr>taskId = 3, ori_x = 0, ori_y = 32, size_x = 32, size_y = 32\<rparr>]))"
    by code_simp
  from pushRenderTask_spiral [of "(2, 2)" 64 64 32] obtain n where n: "1 \<le> n"
    and out: "outside_both (2, 2) (spec_cell ?c n)"
    and before: "\<forall>j. 1 \<le> j \<and> j < n \<longrightarrow> \<not> outside_both (2, 2) (spec_cell ?c j)"
    and run: "spiral_loop 64 64 32 (2, 2) (spiral_start (2, 2)) (0, [])
              = Some (spec_emit 64 64 32 (2, 2) (map (spec_cell ?c) [0 ..< n]))"
    by auto
  have "n = 6"
  proof (rule ccontr)
    assume ne: "n \<noteq> 6"
    show False
    proof (cases "n < 6")
      case True
      with n have "n = 1 \<or> n = 2 \<or> n = 3 \<or> n = 4 \<or> n = 5" by presburger
      with out o show False by auto
    next
      case False
      with ne have "1 \<le> (6::nat) \<and> 6 < n" by simp
      with before o(6) show False by blast
    qed
  qed
  with run cells ob em tt show ?thesis by simp
qed


end
